theory Spec2Isabelle
  imports Main
begin

section \<open>Python values, dictionaries and errors\<close>

text \<open>
  Rows come from \<^verbatim>\<open>datasets.load_dataset\<close>, \<^verbatim>\<open>pandas.read_csv\<close> and
  \<^verbatim>\<open>json.load\<close> and are typed \<^verbatim>\<open>Dict[str, Any]\<close>.  A value is \<^verbatim>\<open>None\<close>, a
  \<^verbatim>\<open>bool\<close>, an \<^verbatim>\<open>int\<close>, a \<^verbatim>\<open>str\<close>, a \<^verbatim>\<open>list\<close> or a \<^verbatim>\<open>dict\<close> with string
  keys.  Floating-point cells are not part of the value model.  A \<^verbatim>\<open>dict\<close> is an
  association list in insertion order; a well-formed one has distinct keys.  Strings are
  lists of 8-bit characters; the character classes below are those of ASCII text.
\<close>

datatype pyval =
    PNone
  | PBool bool
  | PInt int
  | PStr string
  | PList "pyval list"
  | PDict "(string \<times> pyval) list"

type_synonym dict = "(string \<times> pyval) list"

datatype error =
    TypeError
  | AttributeError
  | KeyError
  | ValueError
  | IndexError
  | ExternalError string

text \<open>\<^verbatim>\<open>bool(v)\<close>: the truth value Python gives \<^verbatim>\<open>v\<close> in \<^verbatim>\<open>if v\<close>, \<^verbatim>\<open>not v\<close>,
  \<^verbatim>\<open>a or b\<close>.\<close>

fun truthy :: "pyval \<Rightarrow> bool" where
  "truthy PNone = False"
| "truthy (PBool b) = b"
| "truthy (PInt i) = (i \<noteq> 0)"
| "truthy (PStr s) = (s \<noteq> [])"
| "truthy (PList xs) = (xs \<noteq> [])"
| "truthy (PDict d) = (d \<noteq> [])"

text \<open>\<^verbatim>\<open>a or b\<close>.\<close>

definition py_or :: "pyval \<Rightarrow> pyval \<Rightarrow> pyval" where
  "py_or a b = (if truthy a then a else b)"

text \<open>\<^verbatim>\<open>v == "s"\<close> for a string literal: only the equal string compares equal.\<close>

definition eq_str :: "pyval \<Rightarrow> string \<Rightarrow> bool" where
  "eq_str v s = (v = PStr s)"

text \<open>\<^verbatim>\<open>d.get(k)\<close>, \<^verbatim>\<open>d.get(k, default)\<close> and \<^verbatim>\<open>d[k] = v\<close>.\<close>

definition dict_get :: "dict \<Rightarrow> string \<Rightarrow> pyval" where
  "dict_get d k = (case map_of d k of None \<Rightarrow> PNone | Some v \<Rightarrow> v)"

definition dict_get_default :: "dict \<Rightarrow> string \<Rightarrow> pyval \<Rightarrow> pyval" where
  "dict_get_default d k dflt = (case map_of d k of None \<Rightarrow> dflt | Some v \<Rightarrow> v)"

fun dict_set :: "string \<Rightarrow> pyval \<Rightarrow> dict \<Rightarrow> dict" where
  "dict_set k v [] = [(k, v)]"
| "dict_set k v ((k', v') # d) =
     (if k' = k then (k, v) # d else (k', v') # dict_set k v d)"

text \<open>\<^verbatim>\<open>{**a, **b}\<close>: the entries of \<^verbatim>\<open>b\<close> are stored into \<^verbatim>\<open>a\<close> one by one.\<close>

definition dict_merge :: "dict \<Rightarrow> dict \<Rightarrow> dict" where
  "dict_merge a b = fold (\<lambda>(k, v) d. dict_set k v d) b a"

section \<open>The unified record\<close>

text \<open>\<^verbatim>\<open>DataItem\<close> of \<^verbatim>\<open>dataloader/base.py\<close>.  The field \<^verbatim>\<open>id\<close> is \<open>item_id\<close>
  here.  Its default factory draws a fresh \<^verbatim>\<open>uuid4\<close>; the constructor below takes the
  drawn identifier as its first argument.\<close>

record DataItem =
  item_id :: string
  query :: pyval
  response :: pyval
  query_harmful_label :: "bool option"
  response_harmful_label :: "bool option"
  response_refusal_label :: "bool option"
  category :: pyval
  extra :: dict

definition new_DataItem :: "string \<Rightarrow> DataItem" where
  "new_DataItem uid =
     \<lparr> item_id = uid, query = PNone, response = PNone,
       query_harmful_label = None, response_harmful_label = None,
       response_refusal_label = None, category = PNone, extra = [] \<rparr>"

section \<open>Decimal formatting and \<^verbatim>\<open>generate_id\<close>\<close>

definition digit_char :: "nat \<Rightarrow> char" where
  "digit_char d = char_of (48 + d)"

text \<open>\<^verbatim>\<open>str(n)\<close> for a natural number.\<close>

fun dec :: "nat \<Rightarrow> string" where
  "dec n = (if n < 10 then [digit_char n] else dec (n div 10) @ [digit_char (n mod 10)])"

declare dec.simps [simp del]

text \<open>The number a string of decimal digits denotes (\<^verbatim>\<open>int(s)\<close> on digits).\<close>

definition digit_val :: "char \<Rightarrow> nat" where
  "digit_val c = of_char c - 48"

definition undec :: "string \<Rightarrow> nat" where
  "undec s = foldl (\<lambda>a c. 10 * a + digit_val c) 0 s"

definition zfill :: "nat \<Rightarrow> string \<Rightarrow> string" where
  "zfill w s = replicate (w - length s) (CHR ''0'') @ s"

text \<open>\<^verbatim>\<open>f"{idx:06d}"\<close>: the sign counts towards the minimum width of six.\<close>

definition fmt_06d :: "int \<Rightarrow> string" where
  "fmt_06d i = (if i < 0 then CHR ''-'' # zfill 5 (dec (nat (- i))) else zfill 6 (dec (nat i)))"

definition generate_id :: "string \<Rightarrow> int \<Rightarrow> string" where
  "generate_id name idx = name @ ''-'' @ fmt_06d idx"

section \<open>The base loader\<close>

text \<open>What \<^verbatim>\<open>load_dataset\<close> returns: a \<^verbatim>\<open>Dataset\<close> (an iterable of rows) or a
  \<^verbatim>\<open>DatasetDict\<close> from split names to datasets.\<close>

datatype dataset = Dataset "pyval list" | DatasetDict "(string \<times> pyval list) list"

text \<open>The collaborators: the dataset hub, the CSV and JSON readers, and the source of
  fresh identifiers (\<open>uuid4 i\<close> is the one drawn while entry number \<open>i\<close> is built).\<close>

record env =
  load_dataset :: "pyval \<Rightarrow> dict \<Rightarrow> error + dataset"
  read_csv :: "pyval \<Rightarrow> error + (string list \<times> dict list)"
  read_json :: "pyval \<Rightarrow> error + pyval"
  uuid4 :: "int \<Rightarrow> string"

record loader =
  REGISTER_NAME :: string
  path :: pyval
  init_kwargs :: dict

text \<open>\<^verbatim>\<open>BaseDataLoader.__init__\<close>; \<open>default_path\<close> is the class attribute
  \<^verbatim>\<open>DEFAULT_HF_PATH\<close>.\<close>

definition base_init :: "string \<Rightarrow> pyval \<Rightarrow> pyval \<Rightarrow> pyval \<Rightarrow> dict \<Rightarrow> error + loader" where
  "base_init name default_path p split kwargs =
     (let pth = py_or p default_path;
          kw = dict_merge [(''split'', split)] kwargs
      in if \<not> truthy pth then Inl ValueError
         else Inr \<lparr> REGISTER_NAME = name, path = pth, init_kwargs = kw \<rparr>)"

text \<open>Step 3 of \<^verbatim>\<open>load\<close>: a \<^verbatim>\<open>DatasetDict\<close> that has the split is replaced by that
  split; iterating a \<^verbatim>\<open>DatasetDict\<close> that does not have it yields its keys.  The
  membership test hashes \<^verbatim>\<open>current_split\<close>, so a list or dict raises.\<close>

definition select_split :: "dataset \<Rightarrow> pyval \<Rightarrow> error + pyval list" where
  "select_split ds current_split =
     (case ds of
        Dataset rows \<Rightarrow> Inr rows
      | DatasetDict splits \<Rightarrow>
          (case current_split of
             PList _ \<Rightarrow> Inl TypeError
           | PDict _ \<Rightarrow> Inl TypeError
           | PStr s \<Rightarrow>
               (case map_of splits s of
                  Some rows \<Rightarrow> Inr rows
                | None \<Rightarrow> Inr (map (\<lambda>(k, _). PStr k) splits))
           | _ \<Rightarrow> Inr (map (\<lambda>(k, _). PStr k) splits)))"

text \<open>The loop of \<^verbatim>\<open>load\<close>: \<^verbatim>\<open>enumerate(dataset, 1)\<close>.  A mapping returns
  a record, returns \<^verbatim>\<open>None\<close> (then \<^verbatim>\<open>item.id = ...\<close> raises), or raises.\<close>

fun load_loop ::
  "string \<Rightarrow> (string \<Rightarrow> pyval \<Rightarrow> error + DataItem option) \<Rightarrow> (int \<Rightarrow> string) \<Rightarrow> int \<Rightarrow>
   pyval list \<Rightarrow> error + DataItem list" where
  "load_loop name mapping uuid i [] = Inr []"
| "load_loop name mapping uuid i (row # rows) =
     (case mapping (uuid i) row of
        Inl e \<Rightarrow> Inl e
      | Inr None \<Rightarrow> Inl AttributeError
      | Inr (Some item) \<Rightarrow>
          (case load_loop name mapping uuid (i + 1) rows of
             Inl e \<Rightarrow> Inl e
           | Inr items \<Rightarrow> Inr (item\<lparr>item_id := generate_id name i\<rparr> # items)))"

definition final_kwargs :: "loader \<Rightarrow> pyval \<Rightarrow> dict \<Rightarrow> dict" where
  "final_kwargs ld split load_kwargs =
     dict_merge (dict_set ''split'' split (init_kwargs ld)) load_kwargs"

text \<open>\<^verbatim>\<open>BaseDataLoader.load\<close>.  The keyword arguments cannot hold \<^verbatim>\<open>split\<close> (it is
  a named parameter), so \<^verbatim>\<open>current_split\<close> is \<^verbatim>\<open>split\<close>.\<close>

definition load ::
  "env \<Rightarrow> (string \<Rightarrow> pyval \<Rightarrow> error + DataItem option) \<Rightarrow> loader \<Rightarrow> pyval \<Rightarrow> dict \<Rightarrow>
   error + DataItem list" where
  "load ev mapping ld split load_kwargs =
     (case load_dataset ev (path ld) (final_kwargs ld split load_kwargs) of
        Inl e \<Rightarrow> Inl e
      | Inr ds \<Rightarrow>
          (case select_split ds split of
             Inl e \<Rightarrow> Inl e
           | Inr rows \<Rightarrow> load_loop (REGISTER_NAME ld) mapping (uuid4 ev) 1 rows))"

text \<open>The loaders' own \<^verbatim>\<open>load(**load_kwargs)\<close> call \<^verbatim>\<open>super().load(**load_kwargs)\<close>:
  a \<^verbatim>\<open>split\<close> among the keywords binds the named parameter, whose default is
  \<^verbatim>\<open>"train"\<close>.\<close>

definition super_load ::
  "env \<Rightarrow> (string \<Rightarrow> pyval \<Rightarrow> error + DataItem option) \<Rightarrow> loader \<Rightarrow> dict \<Rightarrow>
   error + DataItem list" where
  "super_load ev mapping ld load_kwargs =
     load ev mapping ld (dict_get_default load_kwargs ''split'' (PStr ''train''))
       (filter (\<lambda>(k, _). k \<noteq> ''split'') load_kwargs)"

section \<open>String operations\<close>

text \<open>\<^verbatim>\<open>str.isspace\<close> and the class \<^verbatim>\<open>\\s\<close> of \<^verbatim>\<open>re\<close> on code points below 256.\<close>

definition is_space :: "char \<Rightarrow> bool" where
  "is_space c =
     (let n = (of_char c :: nat)
      in (9 \<le> n \<and> n \<le> 13) \<or> (28 \<le> n \<and> n \<le> 32) \<or> n = 133 \<or> n = 160)"

text \<open>The class \<^verbatim>\<open>\\d\<close> of \<^verbatim>\<open>re\<close> on code points below 256.\<close>

definition is_digit :: "char \<Rightarrow> bool" where
  "is_digit c = (let n = (of_char c :: nat) in 48 \<le> n \<and> n \<le> 57)"

definition lower_char :: "char \<Rightarrow> char" where
  "lower_char c =
     (let n = (of_char c :: nat)
      in if (65 \<le> n \<and> n \<le> 90) \<or> (192 \<le> n \<and> n \<le> 222 \<and> n \<noteq> 215)
         then char_of (n + 32) else c)"

text \<open>\<^verbatim>\<open>s.lower()\<close> and \<^verbatim>\<open>s.strip()\<close>.\<close>

definition lower :: "string \<Rightarrow> string" where
  "lower s = map lower_char s"

definition strip :: "string \<Rightarrow> string" where
  "strip s = rev (dropWhile is_space (rev (dropWhile is_space s)))"

definition starts_with :: "string \<Rightarrow> string \<Rightarrow> bool" where
  "starts_with p s = (take (length p) s = p)"

text \<open>\<^verbatim>\<open>p in s\<close> on strings: \<^verbatim>\<open>p\<close> occurs in \<^verbatim>\<open>s\<close>.\<close>

fun sub_in :: "string \<Rightarrow> string \<Rightarrow> bool" where
  "sub_in p [] = (p = [])"
| "sub_in p (c # s) = (starts_with p (c # s) \<or> sub_in p s)"

text \<open>\<^verbatim>\<open>s.split(c)\<close> for a one-character separator.\<close>

fun split_char :: "char \<Rightarrow> string \<Rightarrow> string list" where
  "split_char c [] = [[]]"
| "split_char c (x # xs) =
     (if x = c then [] # split_char c xs
      else (case split_char c xs of [] \<Rightarrow> [[x]] | w # ws \<Rightarrow> (x # w) # ws))"

text \<open>\<^verbatim>\<open>sep.join(xs)\<close>.\<close>

fun join :: "string \<Rightarrow> string list \<Rightarrow> string" where
  "join sep [] = []"
| "join sep [x] = x"
| "join sep (x # y # ys) = x @ sep @ join sep (y # ys)"

text \<open>\<^verbatim>\<open>p in v\<close> for a string literal \<^verbatim>\<open>p\<close>: substring of a string, element of a list,
  key of a dict; the other values are not iterable.\<close>

fun py_in :: "string \<Rightarrow> pyval \<Rightarrow> error + bool" where
  "py_in p (PStr s) = Inr (sub_in p s)"
| "py_in p (PList xs) = Inr (List.member xs (PStr p))"
| "py_in p (PDict d) = Inr (List.member (map fst d) p)"
| "py_in p _ = Inl TypeError"

text \<open>\<^verbatim>\<open>str(v)\<close> and \<^verbatim>\<open>repr(v)\<close>.\<close>

definition str_int :: "int \<Rightarrow> string" where
  "str_int i = (if i < 0 then CHR ''-'' # dec (nat (- i)) else dec (nat i))"

definition hex_digit :: "nat \<Rightarrow> char" where
  "hex_digit d = (if d < 10 then char_of (48 + d) else char_of (87 + d))"

definition printable :: "char \<Rightarrow> bool" where
  "printable c = (let n = (of_char c :: nat) in 32 \<le> n \<and> \<not> (127 \<le> n \<and> n \<le> 160) \<and> n \<noteq> 173)"

definition repr_char :: "char \<Rightarrow> char \<Rightarrow> string" where
  "repr_char q c =
     (if c = q \<or> c = CHR 0x5C then [CHR 0x5C, c]
      else if c = CHR 0x09 then [CHR 0x5C, CHR ''t'']
      else if c = CHR 0x0A then [CHR 0x5C, CHR ''n'']
      else if c = CHR 0x0D then [CHR 0x5C, CHR ''r'']
      else if printable c then [c]
      else [CHR 0x5C, CHR ''x'', hex_digit (of_char c div 16), hex_digit (of_char c mod 16)])"

definition repr_str :: "string \<Rightarrow> string" where
  "repr_str s =
     (let q = (if CHR 0x27 \<in> set s \<and> CHR 0x22 \<notin> set s then CHR 0x22 else CHR 0x27)
      in q # concat (map (repr_char q) s) @ [q])"

fun py_repr :: "pyval \<Rightarrow> string" where
  "py_repr PNone = ''None''"
| "py_repr (PBool b) = (if b then ''True'' else ''False'')"
| "py_repr (PInt i) = str_int i"
| "py_repr (PStr s) = repr_str s"
| "py_repr (PList xs) = ''['' @ join '', '' (map py_repr xs) @ '']''"
| "py_repr (PDict d) =
     ''{'' @ join '', '' (map (\<lambda>kv. repr_str (fst kv) @ '': '' @ py_repr (snd kv)) d) @ ''}''"

definition py_str :: "pyval \<Rightarrow> string" where
  "py_str v = (case v of PStr s \<Rightarrow> s | _ \<Rightarrow> py_repr v)"

section \<open>aegis-v1: majority vote over five annotators\<close>

text \<open>\<^verbatim>\<open>f"labels_{i}"\<close> for \<^verbatim>\<open>i in range(5)\<close>.\<close>

definition label_keys :: "string list" where
  "label_keys = map (\<lambda>i. ''labels_'' @ dec i) [0..<5]"

text \<open>\<^verbatim>\<open>collections.Counter\<close>: keys in first-insertion order with their counts.  Keys are
  hashed, so a list or dict raises; \<^verbatim>\<open>True\<close> and \<^verbatim>\<open>1\<close> (\<^verbatim>\<open>False\<close> and \<^verbatim>\<open>0\<close>) are the
  same key.\<close>

definition hashable :: "pyval \<Rightarrow> bool" where
  "hashable v = (case v of PList _ \<Rightarrow> False | PDict _ \<Rightarrow> False | _ \<Rightarrow> True)"

definition key_norm :: "pyval \<Rightarrow> pyval" where
  "key_norm v = (case v of PBool b \<Rightarrow> PInt (if b then 1 else 0) | _ \<Rightarrow> v)"

definition key_eq :: "pyval \<Rightarrow> pyval \<Rightarrow> bool" where
  "key_eq a b = (key_norm a = key_norm b)"

fun counter_add :: "pyval \<Rightarrow> (pyval \<times> nat) list \<Rightarrow> (pyval \<times> nat) list" where
  "counter_add k [] = [(k, 1)]"
| "counter_add k ((k', n) # cs) =
     (if key_eq k' k then (k', n + 1) # cs else (k', n) # counter_add k cs)"

definition Counter :: "pyval list \<Rightarrow> (pyval \<times> nat) list" where
  "Counter xs = foldl (\<lambda>cs k. counter_add k cs) [] xs"

text \<open>\<^verbatim>\<open>most_common(1)\<close> is \<^verbatim>\<open>max(items, key=count)\<close>: the first entry with the
  greatest count.\<close>

fun first_max :: "(pyval \<times> nat) \<Rightarrow> (pyval \<times> nat) list \<Rightarrow> (pyval \<times> nat)" where
  "first_max best [] = best"
| "first_max best (x # xs) = first_max (if snd best < snd x then x else best) xs"

text \<open>The labels that vote: \<^verbatim>\<open>row.get(k) and row.get(k) != "None"\<close>.\<close>

definition valid_labels :: "dict \<Rightarrow> pyval list" where
  "valid_labels row =
     filter (\<lambda>v. truthy v \<and> \<not> eq_str v ''None'') (map (dict_get row) label_keys)"

text \<open>\<^verbatim>\<open>AegisV1Loader._get_majority_label\<close>.\<close>

definition get_majority_label :: "dict \<Rightarrow> error + pyval" where
  "get_majority_label row =
     (let valid = valid_labels row
      in if valid = [] then Inr (PStr ''None'')
         else if list_ex (\<lambda>v. \<not> hashable v) valid then Inl TypeError
         else (case Counter valid of
                 [] \<Rightarrow> Inl IndexError
               | c # cs \<Rightarrow> Inr (fst (first_max c cs))))"

text \<open>A row that is not a dict has no \<^verbatim>\<open>get\<close>: every mapping raises on it at once.\<close>

definition on_row :: "(dict \<Rightarrow> error + DataItem option) \<Rightarrow> pyval \<Rightarrow> error + DataItem option" where
  "on_row f v = (case v of PDict row \<Rightarrow> f row | _ \<Rightarrow> Inl AttributeError)"

text \<open>\<^verbatim>\<open>AegisV1Loader.mapping\<close>.\<close>

definition aegis_v1_mapping :: "string \<Rightarrow> pyval \<Rightarrow> error + DataItem option" where
  "aegis_v1_mapping uid = on_row (\<lambda>row.
     case get_majority_label row of
       Inl e \<Rightarrow> Inl e
     | Inr majority_label \<Rightarrow>
         (let labels = filter (\<lambda>v. v \<noteq> PNone) (map (dict_get row) label_keys);
              is_harmful = list_all (\<lambda>label. \<not> eq_str label ''Safe'') labels
          in Inr (Some ((new_DataItem uid)
               \<lparr> query := dict_get row ''text'',
                 query_harmful_label := Some is_harmful,
                 category := majority_label,
                 extra := [(''text_type'', dict_get row ''text_type''),
                           (''labels'', PList (map (dict_get row) label_keys))] \<rparr>))))"

section \<open>aegis-v2\<close>

text \<open>\<^verbatim>\<open>AegisV2Loader.mapping\<close>.\<close>

definition aegis_v2_mapping :: "string \<Rightarrow> pyval \<Rightarrow> error + DataItem option" where
  "aegis_v2_mapping uid = on_row (\<lambda>row.
     let q_harmful = eq_str (dict_get row ''prompt_label'') ''unsafe'';
         r_harmful = eq_str (dict_get row ''response_label'') ''unsafe'';
         is_refusal = eq_str (dict_get row ''response_label_source'') ''refusal_data_augmentation''
     in Inr (Some ((new_DataItem uid)
          \<lparr> query := dict_get row ''prompt'',
            response := dict_get row ''response'',
            query_harmful_label := Some q_harmful,
            response_harmful_label := Some r_harmful,
            response_refusal_label := Some is_refusal,
            category := dict_get_default row ''violated_categories'' (PStr []),
            extra := [(''reconstruction_id'', dict_get row ''reconstruction_id_if_redacted''),
                      (''prompt_label_source'', dict_get row ''prompt_label_source''),
                      (''response_label_source'', dict_get row ''response_label_source'')] \<rparr>)))"

section \<open>beavertails: a dictionary of named boolean flags\<close>

text \<open>\<^verbatim>\<open>BeaverTailsLoader._extract_categories\<close>: only a dict has \<^verbatim>\<open>items\<close>.\<close>

definition extract_categories :: "pyval \<Rightarrow> error + string" where
  "extract_categories category_dict =
     (if \<not> truthy category_dict then Inr []
      else (case category_dict of
              PDict d \<Rightarrow> Inr (join '';'' (map fst (filter (\<lambda>(cat, triggered). truthy triggered) d)))
            | _ \<Rightarrow> Inl AttributeError))"

text \<open>\<^verbatim>\<open>BeaverTailsLoader.mapping\<close>.\<close>

definition beavertails_mapping :: "string \<Rightarrow> pyval \<Rightarrow> error + DataItem option" where
  "beavertails_mapping uid = on_row (\<lambda>row.
     let is_safe = dict_get_default row ''is_safe'' (PBool True);
         overall_harmful = (\<not> truthy is_safe);
         category_dict = dict_get_default row ''category'' (PDict [])
     in case extract_categories category_dict of
          Inl e \<Rightarrow> Inl e
        | Inr violated_str \<Rightarrow>
            Inr (Some ((new_DataItem uid)
              \<lparr> query := dict_get row ''prompt'',
                response := dict_get row ''response'',
                query_harmful_label := Some overall_harmful,
                response_harmful_label := Some overall_harmful,
                category := (if length violated_str \<noteq> 0 then PStr violated_str else PNone),
                extra := [(''raw_category_map'', category_dict)] \<rparr>)))"

section \<open>bingoguard: delimited labels with an embedded severity\<close>

text \<open>\<^verbatim>\<open>re.search(r"#level:\s*(\d+)", s)\<close>: the digits of the leftmost match.\<close>

definition match_level_at :: "string \<Rightarrow> string option" where
  "match_level_at s =
     (if starts_with ''#level:'' s
      then (let ds = takeWhile is_digit (dropWhile is_space (drop 7 s))
            in if ds = [] then None else Some ds)
      else None)"

fun search_level :: "string \<Rightarrow> string option" where
  "search_level [] = None"
| "search_level (c # s) =
     (case match_level_at (c # s) of Some ds \<Rightarrow> Some ds | None \<Rightarrow> search_level s)"

text \<open>\<^verbatim>\<open>BingoGuardLoader._extract_severity\<close>; \<^verbatim>\<open>re.search\<close> on a list or dict
  raises.\<close>

definition extract_severity :: "pyval \<Rightarrow> error + int option" where
  "extract_severity label_str =
     (if \<not> truthy label_str then Inr None
      else (case py_in ''#level:'' label_str of
              Inl e \<Rightarrow> Inl e
            | Inr False \<Rightarrow> Inr None
            | Inr True \<Rightarrow>
                (case label_str of
                   PStr s \<Rightarrow>
                     (case search_level s of
                        Some ds \<Rightarrow> Inr (Some (int (undec ds)))
                      | None \<Rightarrow> Inr None)
                 | _ \<Rightarrow> Inl TypeError)))"

text \<open>\<^verbatim>\<open>BingoGuardLoader._parse_safety\<close>; a list or dict has no \<^verbatim>\<open>split\<close>.\<close>

definition parse_safety :: "pyval \<Rightarrow> error + (bool \<times> string)" where
  "parse_safety prompt_label =
     (if \<not> truthy prompt_label then Inr (False, ''safe'')
      else (case py_in ''unsafe'' prompt_label of
              Inl e \<Rightarrow> Inl e
            | Inr is_harmful \<Rightarrow>
                (case py_in '':'' prompt_label of
                   Inl e \<Rightarrow> Inl e
                 | Inr True \<Rightarrow>
                     (case prompt_label of
                        PStr s \<Rightarrow> Inr (is_harmful, strip (last (split_char (CHR '':'') s)))
                      | _ \<Rightarrow> Inl AttributeError)
                 | Inr False \<Rightarrow>
                     Inr (is_harmful, if is_harmful then ''unsafe'' else ''safe''))))"

text \<open>The test of \<^verbatim>\<open>mapping\<close> for a missing response:
  \<^verbatim>\<open>response_text is None or str(response_text).strip() == "" or
  str(response_text).lower() == "none"\<close>.\<close>

definition response_missing :: "pyval \<Rightarrow> bool" where
  "response_missing response_text =
     (response_text = PNone \<or> strip (py_str response_text) = []
      \<or> lower (py_str response_text) = ''none'')"

text \<open>\<^verbatim>\<open>BingoGuardLoader.mapping\<close>.\<close>

definition bingoguard_mapping :: "string \<Rightarrow> pyval \<Rightarrow> error + DataItem option" where
  "bingoguard_mapping uid = on_row (\<lambda>row.
     let p_label_raw = dict_get_default row ''prompt_label'' (PStr []);
         r_label_raw = dict_get_default row ''label'' (PStr []);
         response_text = dict_get row ''response''
     in case parse_safety p_label_raw of
          Inl e \<Rightarrow> Inl e
        | Inr (is_harmful, category_name) \<Rightarrow>
            (let final_r_harmful =
                   (if response_missing response_text then None else Some is_harmful)
             in case extract_severity r_label_raw of
                  Inl e \<Rightarrow> Inl e
                | Inr severity \<Rightarrow>
                    Inr (Some ((new_DataItem uid)
                      \<lparr> query := dict_get row ''prompt'',
                        response := response_text,
                        query_harmful_label := Some is_harmful,
                        response_harmful_label := final_r_harmful,
                        category := PStr category_name,
                        extra := [(''severity'',
                                     (case severity of None \<Rightarrow> PNone | Some n \<Rightarrow> PInt n)),
                                  (''prompt_label'', p_label_raw),
                                  (''label_field'', r_label_raw)] \<rparr>))))"

section \<open>harmbench: two files, one counter\<close>

text \<open>\<^verbatim>\<open>HarmBenchLoader.__init__\<close>: the two paths are stored among the retained keyword
  arguments.\<close>

definition harmbench_init ::
  "string \<Rightarrow> pyval \<Rightarrow> pyval \<Rightarrow> pyval \<Rightarrow> pyval \<Rightarrow> pyval \<Rightarrow> dict \<Rightarrow> error + loader" where
  "harmbench_init name default_path query_task_path response_task_path p split kwargs =
     (case base_init name default_path p split kwargs of
        Inl e \<Rightarrow> Inl e
      | Inr ld \<Rightarrow>
          Inr (ld\<lparr>init_kwargs :=
                 dict_merge (init_kwargs ld)
                   [(''query_task_path'', query_task_path),
                    (''response_task_path'', response_task_path)]\<rparr>))"

text \<open>\<^verbatim>\<open>HarmBenchLoader.mapping\<close> is \<^verbatim>\<open>pass\<close>: it returns \<^verbatim>\<open>None\<close>.\<close>

definition harmbench_mapping :: "string \<Rightarrow> pyval \<Rightarrow> error + DataItem option" where
  "harmbench_mapping uid row = Inr None"

text \<open>\<^verbatim>\<open>isin(["standard", "copyright"])\<close> on a cell.\<close>

definition allowed_category :: "pyval \<Rightarrow> bool" where
  "allowed_category v = (v = PStr ''standard'' \<or> v = PStr ''copyright'')"

text \<open>The loop of \<^verbatim>\<open>_parse_query_csv\<close>: \<^verbatim>\<open>enumerate(df.iterrows(), start_idx)\<close>.\<close>

fun csv_items :: "string \<Rightarrow> (int \<Rightarrow> string) \<Rightarrow> int \<Rightarrow> dict list \<Rightarrow> DataItem list" where
  "csv_items name uuid i [] = []"
| "csv_items name uuid i (row # rows) =
     ((new_DataItem (uuid i))
        \<lparr> query := dict_get row ''Behavior'',
          response := PNone,
          query_harmful_label := Some True,
          response_harmful_label := None,
          category := dict_get_default row ''SemanticCategory'' (PStr []),
          extra := [(''behavior_id'', dict_get row ''BehaviorID''),
                    (''functional_category'', dict_get row ''FunctionalCategory''),
                    (''tags'', dict_get row ''Tags''),
                    (''context_string'', dict_get row ''ContextString''),
                    (''source_file'', PStr ''behavior_csv'')] \<rparr>
        \<lparr> item_id := generate_id name i \<rparr>)
     # csv_items name uuid (i + 1) rows"

text \<open>\<^verbatim>\<open>HarmBenchLoader._parse_query_csv\<close>.  A data frame is its column names and its
  rows; selecting a column it does not have raises.\<close>

definition parse_query_csv :: "env \<Rightarrow> string \<Rightarrow> pyval \<Rightarrow> int \<Rightarrow> error + DataItem list" where
  "parse_query_csv ev name pth start_idx =
     (case read_csv ev pth of
        Inl e \<Rightarrow> Inl e
      | Inr (columns, rows) \<Rightarrow>
          if \<not> List.member columns ''FunctionalCategory'' then Inl KeyError
          else Inr (csv_items name (uuid4 ev) start_idx
                     (filter (\<lambda>row. allowed_category (dict_get row ''FunctionalCategory'')) rows)))"

text \<open>\<^verbatim>\<open>for case in cases\<close>: a list yields its elements, a dict its keys, a string its
  characters; nothing else is iterable.\<close>

definition py_iter :: "pyval \<Rightarrow> error + pyval list" where
  "py_iter v =
     (case v of
        PList xs \<Rightarrow> Inr xs
      | PDict d \<Rightarrow> Inr (map (\<lambda>kv. PStr (fst kv)) d)
      | PStr s \<Rightarrow> Inr (map (\<lambda>c. PStr [c]) s)
      | _ \<Rightarrow> Inl TypeError)"

text \<open>\<^verbatim>\<open>case["_behavior_id_key"] = behavior_id\<close> on every case of one group; only a dict
  accepts the assignment.\<close>

fun tag_cases :: "string \<Rightarrow> pyval list \<Rightarrow> error + dict list" where
  "tag_cases behavior_id [] = Inr []"
| "tag_cases behavior_id (c # cs) =
     (case c of
        PDict d \<Rightarrow>
          (case tag_cases behavior_id cs of
             Inl e \<Rightarrow> Inl e
           | Inr rest \<Rightarrow> Inr (dict_set ''_behavior_id_key'' (PStr behavior_id) d # rest))
      | _ \<Rightarrow> Inl TypeError)"

text \<open>The flattening loop of \<^verbatim>\<open>_parse_response_json\<close> over \<^verbatim>\<open>raw_data.items()\<close>.\<close>

fun flatten_cases :: "(string \<times> pyval) list \<Rightarrow> error + dict list" where
  "flatten_cases [] = Inr []"
| "flatten_cases ((behavior_id, cases) # groups) =
     (case py_iter cases of
        Inl e \<Rightarrow> Inl e
      | Inr cs \<Rightarrow>
          (case tag_cases behavior_id cs of
             Inl e \<Rightarrow> Inl e
           | Inr tagged \<Rightarrow>
               (case flatten_cases groups of
                  Inl e \<Rightarrow> Inl e
                | Inr rest \<Rightarrow> Inr (tagged @ rest))))"

text \<open>\<^verbatim>\<open>sum(human_votes)\<close>: integers and booleans add up, anything else raises.\<close>

fun py_sum :: "int \<Rightarrow> pyval list \<Rightarrow> error + int" where
  "py_sum acc [] = Inr acc"
| "py_sum acc (v # vs) =
     (case v of
        PInt i \<Rightarrow> py_sum (acc + i) vs
      | PBool b \<Rightarrow> py_sum (acc + (if b then 1 else 0)) vs
      | _ \<Rightarrow> Inl TypeError)"

text \<open>The second loop of \<^verbatim>\<open>_parse_response_json\<close>:
  \<^verbatim>\<open>enumerate(flat_cases, start_idx)\<close>.\<close>

fun json_items :: "string \<Rightarrow> (int \<Rightarrow> string) \<Rightarrow> int \<Rightarrow> dict list \<Rightarrow> error + DataItem list" where
  "json_items name uuid i [] = Inr []"
| "json_items name uuid i (c # cs) =
     (let human_votes = [dict_get_default c ''human_0'' (PInt 0),
                         dict_get_default c ''human_1'' (PInt 0),
                         dict_get_default c ''human_2'' (PInt 0)]
      in case py_sum 0 human_votes of
           Inl e \<Rightarrow> Inl e
         | Inr votes_sum \<Rightarrow>
             (let is_harmful_r = (1 < votes_sum);
                  is_adversarial = (\<not> eq_str (dict_get c ''experiment'') ''default'');
                  item = (new_DataItem (uuid i))
                    \<lparr> query := dict_get c ''test_case'',
                      response := dict_get c ''generation'',
                      query_harmful_label := Some True,
                      response_harmful_label := Some is_harmful_r,
                      category := PStr ''harmful'',
                      extra := [(''behavior_id'', dict_get c ''_behavior_id_key''),
                                (''method'', dict_get c ''method''),
                                (''model'', dict_get c ''model''),
                                (''prompt_type'',
                                   PStr (if is_adversarial then ''adversarial'' else ''vanilla'')),
                                (''human_votes'', PList human_votes),
                                (''source_file'', PStr ''response_json'')] \<rparr>
              in case json_items name uuid (i + 1) cs of
                   Inl e \<Rightarrow> Inl e
                 | Inr rest \<Rightarrow> Inr (item\<lparr>item_id := generate_id name i\<rparr> # rest)))"

text \<open>\<^verbatim>\<open>HarmBenchLoader._parse_response_json\<close>; only a dict has \<^verbatim>\<open>items\<close>.\<close>

definition parse_response_json :: "env \<Rightarrow> string \<Rightarrow> pyval \<Rightarrow> int \<Rightarrow> error + DataItem list" where
  "parse_response_json ev name pth start_idx =
     (case read_json ev pth of
        Inl e \<Rightarrow> Inl e
      | Inr raw_data \<Rightarrow>
          (case raw_data of
             PDict groups \<Rightarrow>
               (case flatten_cases groups of
                  Inl e \<Rightarrow> Inl e
                | Inr flat_cases \<Rightarrow> json_items name (uuid4 ev) start_idx flat_cases)
           | _ \<Rightarrow> Inl AttributeError))"

text \<open>\<^verbatim>\<open>HarmBenchLoader.load\<close>.\<close>

definition harmbench_load :: "env \<Rightarrow> loader \<Rightarrow> pyval \<Rightarrow> pyval \<Rightarrow> dict \<Rightarrow> error + DataItem list" where
  "harmbench_load ev ld query_task_path response_task_path load_kwargs =
     (let q_path = py_or query_task_path (dict_get (init_kwargs ld) ''query_task_path'');
          r_path = py_or response_task_path (dict_get (init_kwargs ld) ''response_task_path'')
      in case (if truthy q_path then parse_query_csv ev (REGISTER_NAME ld) q_path 1 else Inr []) of
           Inl e \<Rightarrow> Inl e
         | Inr csv_part \<Rightarrow>
             (case (if truthy r_path
                    then parse_response_json ev (REGISTER_NAME ld) r_path
                           (int (length csv_part) + 1)
                    else Inr []) of
                Inl e \<Rightarrow> Inl e
              | Inr json_part \<Rightarrow>
                  (let combined_data = csv_part @ json_part
                   in if combined_data = [] then super_load ev harmbench_mapping ld load_kwargs
                      else Inr combined_data)))"

section \<open>Well-formed harmbench files\<close>

text \<open>The shape of the JSON file as the docstring of \<^verbatim>\<open>HarmBenchLoader\<close> describes it: a
  dict from behaviour ids to lists of cases, each case a dict whose \<^verbatim>\<open>human_0\<close>,
  \<^verbatim>\<open>human_1\<close>, \<^verbatim>\<open>human_2\<close> are 0/1 votes (integers or booleans) when present.\<close>

definition vote_ok :: "pyval \<Rightarrow> bool" where
  "vote_ok v = (case v of PInt _ \<Rightarrow> True | PBool _ \<Rightarrow> True | _ \<Rightarrow> False)"

definition case_ok :: "pyval \<Rightarrow> bool" where
  "case_ok c =
     (case c of
        PDict d \<Rightarrow> vote_ok (dict_get_default d ''human_0'' (PInt 0))
                  \<and> vote_ok (dict_get_default d ''human_1'' (PInt 0))
                  \<and> vote_ok (dict_get_default d ''human_2'' (PInt 0))
      | _ \<Rightarrow> False)"

definition group_ok :: "string \<times> pyval \<Rightarrow> bool" where
  "group_ok g = (case snd g of PList cs \<Rightarrow> list_all case_ok cs | _ \<Rightarrow> False)"

text \<open>The number of cases of a group, and of all groups.\<close>

definition group_size :: "string \<times> pyval \<Rightarrow> nat" where
  "group_size g = (case snd g of PList cs \<Rightarrow> length cs | _ \<Rightarrow> 0)"

definition case_count :: "(string \<times> pyval) list \<Rightarrow> nat" where
  "case_count groups = sum_list (map group_size groups)"

text \<open>The rows of a data frame that pass the filter of \<^verbatim>\<open>_parse_query_csv\<close>.\<close>

definition allowed_rows :: "dict list \<Rightarrow> dict list" where
  "allowed_rows rows =
     filter (\<lambda>row. allowed_category (dict_get row ''FunctionalCategory'')) rows"

section \<open>The severity pattern as a language\<close>

text \<open>What the regular expression \<^verbatim>\<open>#level:\s*(\d+)\<close> of \<^verbatim>\<open>_extract_severity\<close> means,
  stated without the search: \<open>level_match s ds\<close> says that the pattern matches at the
  start of \<open>s\<close> and its group captures \<open>ds\<close> (the literal \<^verbatim>\<open>#level:\<close>, any white space,
  then the longest non-empty run of digits); \<open>has_level_pattern l\<close> says that the pattern
  matches somewhere in \<open>l\<close>.\<close>

definition level_match :: "string \<Rightarrow> string \<Rightarrow> bool" where
  "level_match s ds =
     (\<exists>ws rest. s = ''#level:'' @ ws @ ds @ rest \<and> (\<forall>c \<in> set ws. is_space c)
        \<and> ds \<noteq> [] \<and> (\<forall>c \<in> set ds. is_digit c) \<and> (rest = [] \<or> \<not> is_digit (hd rest)))"

definition has_level_pattern :: "string \<Rightarrow> bool" where
  "has_level_pattern l = (\<exists>pre s ds. l = pre @ s \<and> level_match s ds)"

section \<open>aegis-v2: the refusal label\<close>

text \<open>
  Claim C10.  For every row of the aegis-v2 family the mapping returns a record whose
  \<^verbatim>\<open>response_refusal_label\<close> is a boolean, never null: it is true exactly when the row
  has the field \<^verbatim>\<open>response_label_source\<close> and the field is the string
  \<^verbatim>\<open>"refusal_data_augmentation"\<close>; every other value, and a row without the field, gives
  false.
\<close>

theorem aegis_v2_refusal_label:
  "\<exists>item. aegis_v2_mapping uid (PDict row) = Inr (Some item)
     \<and> response_refusal_label item =
         Some (map_of row ''response_label_source'' = Some (PStr ''refusal_data_augmentation''))"
  by (simp add: aegis_v2_mapping_def on_row_def Let_def eq_str_def dict_get_def
           split: option.splits)

section \<open>The generic driver assigns sequential identifiers\<close>

lemma digit_val_digit_char: "d < 10 \<Longrightarrow> digit_val (digit_char d) = d"
  by (simp add: digit_val_def digit_char_def)

lemma undec_snoc: "undec (s @ [c]) = 10 * undec s + digit_val c"
  by (simp add: undec_def)

lemma undec_dec: "undec (dec n) = n"
proof (induction n rule: dec.induct)
  case (1 n)
  show ?case
  proof (cases "n < 10")
    case True
    then show ?thesis
      by (subst dec.simps) (simp add: undec_def digit_val_digit_char)
  next
    case False
    then have "undec (dec (n div 10)) = n div 10" using 1 by simp
    with False show ?thesis
      by (subst dec.simps) (simp add: undec_snoc digit_val_digit_char)
  qed
qed

lemma undec_zeros: "undec (replicate k (CHR ''0'') @ s) = undec s"
proof -
  have "foldl (\<lambda>a c. 10 * a + digit_val c) 0 (replicate k (CHR ''0'')) = 0"
    by (induction k) (simp_all add: digit_val_def)
  then show ?thesis by (simp add: undec_def)
qed

lemma undec_fmt: "0 \<le> i \<Longrightarrow> undec (fmt_06d i) = nat i"
  by (simp add: fmt_06d_def zfill_def undec_zeros undec_dec)

lemma generate_id_inj: "0 \<le> i \<Longrightarrow> 0 \<le> j \<Longrightarrow> generate_id name i = generate_id name j \<Longrightarrow> i = j"
proof -
  assume i: "0 \<le> i" and j: "0 \<le> j" and eq: "generate_id name i = generate_id name j"
  then have "fmt_06d i = fmt_06d j" by (simp add: generate_id_def)
  then have "undec (fmt_06d i) = undec (fmt_06d j)" by simp
  with i j show "i = j" by (simp add: undec_fmt)
qed

lemma length_dec_pow: "10 ^ k \<le> n \<Longrightarrow> k < length (dec n)"
proof (induction k arbitrary: n)
  case 0
  then show ?case by (subst dec.simps) simp
next
  case (Suc k)
  then have "10 ^ k \<le> n div 10" by (simp add: less_eq_div_iff_mult_less_eq)
  then have "k < length (dec (n div 10))" by (rule Suc.IH)
  moreover from Suc.prems have "\<not> n < 10"
    by (metis One_nat_def le_trans not_less one_le_numeral one_le_power power_Suc mult.right_neutral mult_le_mono2 )
  ultimately show ?case by (subst dec.simps) simp
qed


lemma load_loop_total:
  assumes "\<And>u row. row \<in> set rows \<Longrightarrow> \<exists>it. mapping u row = Inr (Some it)"
  shows "\<exists>items. load_loop name mapping uuid i rows = Inr items
           \<and> length items = length rows
           \<and> (\<forall>k < length rows. \<exists>it. mapping (uuid (i + int k)) (rows ! k) = Inr (Some it)
                  \<and> items ! k = it\<lparr>item_id := generate_id name (i + int k)\<rparr>)"
  using assms
proof (induction rows arbitrary: i)
  case Nil
  then show ?case by simp
next
  case (Cons row rows)
  from Cons.prems obtain it where it: "mapping (uuid i) row = Inr (Some it)"
    by (meson list.set_intros(1))
  from Cons.prems have "\<And>u r. r \<in> set rows \<Longrightarrow> \<exists>it. mapping u r = Inr (Some it)"
    by (meson list.set_intros(2))
  from Cons.IH[OF this, of "i + 1"] obtain items where
    items: "load_loop name mapping uuid (i + 1) rows = Inr items"
      "length items = length rows"
      "\<forall>k < length rows. \<exists>it. mapping (uuid (i + 1 + int k)) (rows ! k) = Inr (Some it)
                  \<and> items ! k = it\<lparr>item_id := generate_id name (i + 1 + int k)\<rparr>"
    by blast
  let ?res = "it\<lparr>item_id := generate_id name i\<rparr> # items"
  have run: "load_loop name mapping uuid i (row # rows) = Inr ?res"
    by (simp add: it items(1))
  have each: "\<exists>it'. mapping (uuid (i + int k)) ((row # rows) ! k) = Inr (Some it')
                  \<and> ?res ! k = it'\<lparr>item_id := generate_id name (i + int k)\<rparr>"
    if "k < length (row # rows)" for k
  proof (cases k)
    case 0
    then show ?thesis using it by simp
  next
    case (Suc j)
    with that have "j < length rows" by simp
    with items(3) obtain it' where
      "mapping (uuid (i + 1 + int j)) (rows ! j) = Inr (Some it')"
      "items ! j = it'\<lparr>item_id := generate_id name (i + 1 + int j)\<rparr>"
      by blast
    then show ?thesis using Suc by (simp add: add.assoc)
  qed
  show ?case using run items(2) each by simp
qed

lemma ids_of_items:
  assumes len: "length items = n"
      and each: "\<forall>k < n. \<exists>it. P k it \<and> items ! k = it\<lparr>item_id := generate_id name (1 + int k)\<rparr>"
  shows "map item_id items = map (\<lambda>k. generate_id name (int k)) [1..<Suc n]"
proof (rule nth_equalityI)
  show "length (map item_id items) = length (map (\<lambda>k. generate_id name (int k)) [1..<Suc n])"
    using len by simp
next
  fix k assume "k < length (map item_id items)"
  then have k: "k < n" using len by simp
  with each obtain it where "items ! k = it\<lparr>item_id := generate_id name (1 + int k)\<rparr>"
    by blast
  moreover have "[1..<Suc n] ! k = Suc k" using k by (simp del: upt_Suc)
  moreover have "int (Suc k) = 1 + int k" by simp
  ultimately show "map item_id items ! k = map (\<lambda>k. generate_id name (int k)) [1..<Suc n] ! k"
    using k len by (simp del: upt_Suc)
qed

lemma distinct_ids: "distinct (map (\<lambda>k. generate_id name (int k)) [1..<Suc n])"
proof -
  have "inj_on (\<lambda>k. generate_id name (int k)) (set [1..<Suc n])"
    by (rule inj_onI) (auto dest: generate_id_inj[rotated 2])
  then show ?thesis by (simp add: distinct_map)
qed

lemma digit_char_simps:
  "digit_char 0 = CHR ''0''" "digit_char 1 = CHR ''1''" "digit_char 2 = CHR ''2''"
  "digit_char 3 = CHR ''3''" "digit_char 4 = CHR ''4''" "digit_char 5 = CHR ''5''"
  "digit_char 6 = CHR ''6''" "digit_char 7 = CHR ''7''" "digit_char 8 = CHR ''8''"
  "digit_char 9 = CHR ''9''" "digit_char (Suc 0) = CHR ''1''"
  by code_simp+

lemma replicate_numeral: "replicate (numeral k) x = x # replicate (pred_numeral k) x"
  by (simp add: numeral_eq_Suc)

lemma fmt_06d_examples:
  "fmt_06d 1 = ''000001''" "fmt_06d 999999 = ''999999''" "fmt_06d 1000000 = ''1000000''"
  by (simp_all add: fmt_06d_def zfill_def dec.simps digit_char_simps replicate_numeral)

lemma wide_id:
  assumes "999999 < n"
  shows "generate_id name n = name @ ''-'' @ dec (nat n) \<and> 6 < length (dec (nat n))"
proof -
  from assms have "10 ^ 6 \<le> nat n" by simp
  then have "6 < length (dec (nat n))" by (rule length_dec_pow)
  then show ?thesis using assms by (simp add: generate_id_def fmt_06d_def zfill_def)
qed

text \<open>
  Claim C1.  Generic per-row driver: when the fetch collaborator yields the rows
  \<open>rows\<close> and the loader's mapping returns a record for each of them, \<^verbatim>\<open>load\<close> returns
  exactly \<open>length rows\<close> records, record number \<open>k\<close> being the mapping of row number
  \<open>k\<close> with its id overwritten; the ids are \<^verbatim>\<open>"{name}-000001"\<close> up to
  \<^verbatim>\<open>"{name}-{N:06d}"\<close> in row order, without gap or repeat, pairwise distinct; and a counter
  beyond 999999 is written with all its digits (seven or more), not truncated.
\<close>

theorem load_sequential_ids:
  assumes fetch: "load_dataset ev (path ld) (final_kwargs ld split kw) = Inr ds"
      and sel: "select_split ds split = Inr rows"
      and total: "\<And>u row. row \<in> set rows \<Longrightarrow> \<exists>it. mapping u row = Inr (Some it)"
  shows "\<exists>items. load ev mapping ld split kw = Inr items
           \<and> length items = length rows
           \<and> map item_id items =
               map (\<lambda>k. generate_id (REGISTER_NAME ld) (int k)) [1..<Suc (length rows)]
           \<and> distinct (map item_id items)
           \<and> (\<forall>k < length rows. \<exists>it.
                  mapping (uuid4 ev (1 + int k)) (rows ! k) = Inr (Some it)
                  \<and> items ! k = it\<lparr>item_id := generate_id (REGISTER_NAME ld) (1 + int k)\<rparr>)
           \<and> generate_id (REGISTER_NAME ld) 1 = REGISTER_NAME ld @ ''-000001''
           \<and> generate_id (REGISTER_NAME ld) 999999 = REGISTER_NAME ld @ ''-999999''
           \<and> generate_id (REGISTER_NAME ld) 1000000 = REGISTER_NAME ld @ ''-1000000''
           \<and> (\<forall>n > 999999. generate_id (REGISTER_NAME ld) n = REGISTER_NAME ld @ ''-'' @ dec (nat n)
                  \<and> 6 < length (dec (nat n)) \<and> undec (dec (nat n)) = nat n)"
proof -
  from load_loop_total[of rows mapping "REGISTER_NAME ld" "uuid4 ev" 1, OF total]
  obtain items where
    run: "load_loop (REGISTER_NAME ld) mapping (uuid4 ev) 1 rows = Inr items"
    and len: "length items = length rows"
    and each: "\<forall>k < length rows. \<exists>it.
                  mapping (uuid4 ev (1 + int k)) (rows ! k) = Inr (Some it)
                  \<and> items ! k = it\<lparr>item_id := generate_id (REGISTER_NAME ld) (1 + int k)\<rparr>"
    by blast
  have ld: "load ev mapping ld split kw = Inr items"
    by (simp add: load_def fetch sel run)
  have ids: "map item_id items =
               map (\<lambda>k. generate_id (REGISTER_NAME ld) (int k)) [1..<Suc (length rows)]"
    using len each by (rule ids_of_items)
  have dist: "distinct (map item_id items)"
    unfolding ids by (rule distinct_ids)
  have g1: "generate_id (REGISTER_NAME ld) 1 = REGISTER_NAME ld @ ''-000001''"
    by (simp add: generate_id_def fmt_06d_examples)
  have g2: "generate_id (REGISTER_NAME ld) 999999 = REGISTER_NAME ld @ ''-999999''"
    by (simp add: generate_id_def fmt_06d_examples)
  have g3: "generate_id (REGISTER_NAME ld) 1000000 = REGISTER_NAME ld @ ''-1000000''"
    by (simp add: generate_id_def fmt_06d_examples)
  have wide: "\<forall>n > 999999. generate_id (REGISTER_NAME ld) n = REGISTER_NAME ld @ ''-'' @ dec (nat n)
                  \<and> 6 < length (dec (nat n)) \<and> undec (dec (nat n)) = nat n"
    using wide_id by (simp add: undec_dec)
  show ?thesis using ld len ids dist each g1 g2 g3 wide by blast
qed


theorem load_sequential_ids_witness:
  "\<exists>items.
     load \<lparr>load_dataset = (\<lambda>p kw. Inr (Dataset [PDict [], PDict [(''prompt'', PStr ''hi'')]])),
           read_csv = (\<lambda>p. Inl KeyError), read_json = (\<lambda>p. Inl KeyError),
           uuid4 = (\<lambda>i. ''u'')\<rparr>
       aegis_v2_mapping
       \<lparr>REGISTER_NAME = ''aegis-v2'', path = PStr ''p'', init_kwargs = []\<rparr>
       (PStr ''train'') [] = Inr items
     \<and> map item_id items = [''aegis-v2-000001'', ''aegis-v2-000002'']
     \<and> distinct (map item_id items)"
proof -
  let ?rows = "[PDict [], PDict [(''prompt'', PStr ''hi'')]]"
  let ?ev = "\<lparr>load_dataset = (\<lambda>p kw. Inr (Dataset ?rows)),
           read_csv = (\<lambda>p. Inl KeyError), read_json = (\<lambda>p. Inl KeyError),
           uuid4 = (\<lambda>i. ''u'')\<rparr>"
  let ?ld = "\<lparr>REGISTER_NAME = ''aegis-v2'', path = PStr ''p'', init_kwargs = []\<rparr>"
  have fetch: "load_dataset ?ev (path ?ld) (final_kwargs ?ld (PStr ''train'') []) = Inr (Dataset ?rows)"
    by simp
  have sel: "select_split (Dataset ?rows) (PStr ''train'') = Inr ?rows"
    by (simp add: select_split_def)
  have total: "\<exists>it. aegis_v2_mapping u row = Inr (Some it)" if "row \<in> set ?rows" for u row
    using that by (auto simp add: aegis_v2_mapping_def on_row_def)
  have ids: "map (\<lambda>k. generate_id ''aegis-v2'' (int k)) [1..<Suc (length ?rows)]
               = [''aegis-v2-000001'', ''aegis-v2-000002'']"
  proof -
    have l: "[1..<Suc (length ?rows)] = [1, 2]" by (simp add: upt_rec)
    show ?thesis unfolding l
      by (simp add: generate_id_def fmt_06d_def zfill_def dec.simps digit_char_simps
            replicate_numeral)
  qed
  from load_sequential_ids[of ?ev ?ld "PStr ''train''" "[]" "Dataset ?rows" ?rows aegis_v2_mapping,
      OF fetch sel total]
  show ?thesis unfolding ids[symmetric] by (simp del: upt_Suc) blast
qed

section \<open>beavertails: categories from the flag dictionary\<close>

lemma filter_truthy_bools:
  assumes "\<forall>kv \<in> set d. \<exists>b. snd kv = PBool b"
  shows "filter (\<lambda>(cat, triggered). truthy triggered) d = filter (\<lambda>kv. snd kv = PBool True) d"
  using assms by (induction d) (auto split: prod.splits)

text \<open>
  Claim C9.  For a beavertails row whose \<^verbatim>\<open>category\<close> field is the flag dictionary \<open>d\<close>
  (or is missing, which reads as the empty dictionary), the record's category is the names
  of the flags whose value is true, in the dictionary's order, joined by semicolons, and
  null when that join is empty; for boolean flags "true" is the value \<^verbatim>\<open>True\<close>; an
  all-false or empty dictionary gives null; the one harmfulness boolean (\<^verbatim>\<open>not is_safe\<close>)
  is written to both \<^verbatim>\<open>query_harmful_label\<close> and \<^verbatim>\<open>response_harmful_label\<close>; and the
  flags a: true, b: false, c: true join to \<^verbatim>\<open>"a;c"\<close>.
\<close>

theorem beavertails_category:
  assumes cat: "dict_get_default row ''category'' (PDict []) = PDict d"
  shows "\<exists>item. beavertails_mapping uid (PDict row) = Inr (Some item)
     \<and> category item =
         (let violated = join '';'' (map fst (filter (\<lambda>kv. truthy (snd kv)) d))
          in if violated = [] then PNone else PStr violated)
     \<and> ((\<forall>kv \<in> set d. \<exists>b. snd kv = PBool b) \<longrightarrow>
          filter (\<lambda>kv. truthy (snd kv)) d = filter (\<lambda>kv. snd kv = PBool True) d)
     \<and> ((\<forall>kv \<in> set d. \<not> truthy (snd kv)) \<longrightarrow> category item = PNone)
     \<and> query_harmful_label item = Some (\<not> truthy (dict_get_default row ''is_safe'' (PBool True)))
     \<and> response_harmful_label item = query_harmful_label item
     \<and> join '';'' (map fst (filter (\<lambda>kv. truthy (snd kv))
            [(''a'', PBool True), (''b'', PBool False), (''c'', PBool True)])) = ''a;c''"
proof -
  have f: "(\<lambda>(cat, triggered). truthy triggered) = (\<lambda>kv. truthy (snd kv))"
    by (auto simp add: fun_eq_iff)
  let ?v = "join '';'' (map fst (filter (\<lambda>kv. truthy (snd kv)) d))"
  have ex: "extract_categories (PDict d) = Inr ?v"
  proof (cases "d = []")
    case True
    then show ?thesis by (simp add: extract_categories_def)
  next
    case False
    then show ?thesis by (simp add: extract_categories_def f)
  qed
  let ?item = "(new_DataItem uid)
              \<lparr> query := dict_get row ''prompt'',
                response := dict_get row ''response'',
                query_harmful_label := Some (\<not> truthy (dict_get_default row ''is_safe'' (PBool True))),
                response_harmful_label := Some (\<not> truthy (dict_get_default row ''is_safe'' (PBool True))),
                category := (if length ?v \<noteq> 0 then PStr ?v else PNone),
                extra := [(''raw_category_map'', PDict d)] \<rparr>"
  have run: "beavertails_mapping uid (PDict row) = Inr (Some ?item)"
    by (simp add: beavertails_mapping_def on_row_def Let_def cat ex)
  have allfalse: "category ?item = PNone" if "\<forall>kv \<in> set d. \<not> truthy (snd kv)"
  proof -
    from that have "filter (\<lambda>kv. truthy (snd kv)) d = []" by (simp add: filter_empty_conv)
    then show ?thesis by simp
  qed
  have bools: "filter (\<lambda>kv. truthy (snd kv)) d = filter (\<lambda>kv. snd kv = PBool True) d"
    if "\<forall>kv \<in> set d. \<exists>b. snd kv = PBool b"
    using filter_truthy_bools[OF that] by (simp add: f)
  have ex3: "join '';'' (map fst (filter (\<lambda>kv. truthy (snd kv))
            [(''a'', PBool True), (''b'', PBool False), (''c'', PBool True)])) = ''a;c''"
    by simp
  have c: "category ?item = (let violated = ?v in if violated = [] then PNone else PStr violated)"
    by (simp add: Let_def)
  show ?thesis
    apply (rule exI[of _ ?item])
    using run c allfalse bools ex3 by simp
qed

theorem beavertails_category_witness:
  "\<exists>item. beavertails_mapping ''u''
       (PDict [(''is_safe'', PBool False),
               (''category'', PDict [(''a'', PBool True), (''b'', PBool False), (''c'', PBool True)])])
       = Inr (Some item)
     \<and> category item = PStr ''a;c''
     \<and> query_harmful_label item = Some True \<and> response_harmful_label item = Some True"
proof -
  let ?d = "[(''a'', PBool True), (''b'', PBool False), (''c'', PBool True)]"
  let ?row = "[(''is_safe'', PBool False), (''category'', PDict ?d)]"
  have cat: "dict_get_default ?row ''category'' (PDict []) = PDict ?d"
    by (simp add: dict_get_default_def)
  from beavertails_category[OF cat, of "''u''"]
  show ?thesis by (auto simp add: dict_get_default_def Let_def)
qed

section \<open>aegis-v1: majority category and harmful flag\<close>

lemma counter_add_nonempty: "counter_add k cs \<noteq> []"
  by (cases cs) (auto split: if_splits)

lemma Counter_fold_nonempty:
  "cs \<noteq> [] \<or> xs \<noteq> [] \<Longrightarrow> foldl (\<lambda>cs k. counter_add k cs) cs xs \<noteq> []"
  by (induction xs arbitrary: cs) (auto simp add: counter_add_nonempty)

lemma Counter_nonempty: "xs \<noteq> [] \<Longrightarrow> Counter xs \<noteq> []"
  by (simp add: Counter_def Counter_fold_nonempty)

lemma harmful_over_valid:
  "list_all (\<lambda>label. \<not> eq_str label ''Safe'') (filter (\<lambda>v. v \<noteq> PNone) vs)
     = (\<forall>l \<in> set (filter (\<lambda>v. truthy v \<and> \<not> eq_str v ''None'') vs). l \<noteq> PStr ''Safe'')"
  by (auto simp add: list_all_iff eq_str_def)

lemma get_majority_label_returns:
  assumes "valid_labels row \<noteq> []" and "\<forall>v \<in> set (valid_labels row). hashable v"
  shows "\<exists>m. get_majority_label row = Inr m"
proof -
  from assms(1) obtain c cs where "Counter (valid_labels row) = c # cs"
    using Counter_nonempty by (metis list.exhaust)
  moreover from assms(2) have "\<not> list_ex (\<lambda>v. \<not> hashable v) (valid_labels row)"
    by (simp add: list_ex_iff)
  ultimately show ?thesis using assms(1) by (simp add: get_majority_label_def Let_def)
qed

lemma label_keys_eval:
  "label_keys = [''labels_0'', ''labels_1'', ''labels_2'', ''labels_3'', ''labels_4'']"
  by code_simp

lemma aegis_v1_example:
  "\<exists>item. aegis_v1_mapping uid
        (PDict [(''text'', PStr ''t''), (''labels_0'', PStr ''Safe''), (''labels_1'', PStr ''X''),
                (''labels_2'', PStr ''X''), (''labels_3'', PStr ''None''), (''labels_4'', PNone)])
        = Inr (Some item)
      \<and> category item = PStr ''X'' \<and> query_harmful_label item = Some False"
  by (simp add: aegis_v1_mapping_def on_row_def get_majority_label_def valid_labels_def
        label_keys_eval Counter_def key_eq_def key_norm_def hashable_def
        dict_get_def eq_str_def Let_def)


lemma aegis_v1_mapping_run:
  assumes "get_majority_label row = Inr m"
  shows "aegis_v1_mapping uid (PDict row) =
           Inr (Some ((new_DataItem uid)
               \<lparr> query := dict_get row ''text'',
                 query_harmful_label := Some (\<forall>l \<in> set (valid_labels row). l \<noteq> PStr ''Safe''),
                 category := m,
                 extra := [(''text_type'', dict_get row ''text_type''),
                           (''labels'', PList (map (dict_get row) label_keys))] \<rparr>))"
  using assms
  by (simp add: aegis_v1_mapping_def on_row_def Let_def harmful_over_valid valid_labels_def)

text \<open>
  Claim C3 says that an aegis-v1 row whose five annotator labels are all abstentions
  (absent, null, empty or the token \<^verbatim>\<open>"None"\<close>) gets the category \<^verbatim>\<open>"None"\<close> and a null
  \<^verbatim>\<open>query_harmful_label\<close>.  What \<^verbatim>\<open>mapping\<close> computes on such a row: the category is
  \<^verbatim>\<open>"None"\<close>, but \<^verbatim>\<open>query_harmful_label\<close> is \<^verbatim>\<open>True\<close>, because \<^verbatim>\<open>all\<close> ranges over labels
  none of which is \<^verbatim>\<open>"Safe"\<close>.
\<close>

theorem aegis_v1_no_valid_labels:
  assumes "valid_labels row = []"
  shows "\<exists>item. aegis_v1_mapping uid (PDict row) = Inr (Some item)
           \<and> category item = PStr ''None''
           \<and> query_harmful_label item = Some True"
proof -
  have "get_majority_label row = Inr (PStr ''None'')"
    using assms by (simp add: get_majority_label_def)
  from aegis_v1_mapping_run[OF this, of uid] show ?thesis
    using assms by simp
qed

theorem aegis_v1_no_valid_labels_witness:
  "\<exists>item. aegis_v1_mapping ''u''
       (PDict [(''text'', PStr ''hello''), (''labels_0'', PStr ''None''), (''labels_1'', PStr ''None''),
               (''labels_2'', PStr ''None''), (''labels_3'', PStr ''None''),
               (''labels_4'', PStr ''None'')]) = Inr (Some item)
     \<and> category item = PStr ''None''
     \<and> query_harmful_label item = Some True"
proof -
  let ?row = "[(''text'', PStr ''hello''), (''labels_0'', PStr ''None''), (''labels_1'', PStr ''None''),
               (''labels_2'', PStr ''None''), (''labels_3'', PStr ''None''),
               (''labels_4'', PStr ''None'')]"
  have "valid_labels ?row = []"
    by (simp add: valid_labels_def label_keys_eval dict_get_def eq_str_def)
  from aegis_v1_no_valid_labels[OF this, of "''u''"] show ?thesis .
qed

text \<open>
  Claim C4.  For an aegis-v1 row with at least one non-abstained annotator label (the
  labels being hashable values, as strings are), the mapping returns a record whose
  \<^verbatim>\<open>query_harmful_label\<close> is true if and only if every non-abstained label differs from
  \<^verbatim>\<open>"Safe"\<close>, whichever label wins the vote; a row with the valid labels Safe, X, X gets
  the majority category \<^verbatim>\<open>"X"\<close> and \<^verbatim>\<open>query_harmful_label\<close> false.
\<close>

theorem aegis_v1_harmful_flag:
  assumes "valid_labels row \<noteq> []" and "\<forall>v \<in> set (valid_labels row). hashable v"
  shows "\<exists>item. aegis_v1_mapping uid (PDict row) = Inr (Some item)
           \<and> query_harmful_label item = Some (\<forall>l \<in> set (valid_labels row). l \<noteq> PStr ''Safe'')
           \<and> (\<exists>item'. aegis_v1_mapping uid
                 (PDict [(''text'', PStr ''t''), (''labels_0'', PStr ''Safe''),
                         (''labels_1'', PStr ''X''), (''labels_2'', PStr ''X''),
                         (''labels_3'', PStr ''None''), (''labels_4'', PNone)]) = Inr (Some item')
                \<and> category item' = PStr ''X'' \<and> query_harmful_label item' = Some False)"
proof -
  from get_majority_label_returns[OF assms] obtain m where "get_majority_label row = Inr m" ..
  from aegis_v1_mapping_run[OF this, of uid] show ?thesis
    using aegis_v1_example[of uid] by simp
qed

theorem aegis_v1_harmful_flag_witness:
  "\<exists>item. aegis_v1_mapping ''u''
       (PDict [(''labels_0'', PStr ''Hate''), (''labels_1'', PStr ''Safe''),
               (''labels_2'', PStr ''Hate'')]) = Inr (Some item)
     \<and> query_harmful_label item = Some False"
proof -
  let ?row = "[(''labels_0'', PStr ''Hate''), (''labels_1'', PStr ''Safe''),
               (''labels_2'', PStr ''Hate'')]"
  have v: "valid_labels ?row = [PStr ''Hate'', PStr ''Safe'', PStr ''Hate'']"
    by (simp add: valid_labels_def label_keys_eval dict_get_def eq_str_def)
  have ne: "valid_labels ?row \<noteq> []" by (simp add: v)
  have h: "\<forall>v \<in> set (valid_labels ?row). hashable v" by (simp add: v hashable_def)
  from aegis_v1_harmful_flag[OF ne h, of "''u''"] show ?thesis
    by (auto simp add: v)
qed

section \<open>Label fields of rows that give no label\<close>






section \<open>bingoguard: the response label\<close>

lemma strip_empty_iff: "strip s = [] \<longleftrightarrow> (\<forall>c \<in> set s. is_space c)"
proof
  assume e: "strip s = []"
  show "\<forall>c \<in> set s. is_space c"
  proof (rule ccontr)
    assume "\<not> (\<forall>c \<in> set s. is_space c)"
    then have ne: "dropWhile is_space s \<noteq> []" by (simp add: dropWhile_eq_Nil_conv)
    then have "\<not> is_space (hd (dropWhile is_space s))" by (rule hd_dropWhile)
    moreover from e have "\<forall>c \<in> set (dropWhile is_space s). is_space c"
      by (simp add: strip_def dropWhile_eq_Nil_conv)
    ultimately show False using ne by (metis hd_in_set)
  qed
next
  assume "\<forall>c \<in> set s. is_space c"
  then have d: "dropWhile is_space s = []" by (simp add: dropWhile_eq_Nil_conv)
  show "strip s = []" unfolding strip_def d by simp
qed

lemma response_missing_str:
  "response_missing (PStr s) \<longleftrightarrow> (\<forall>c \<in> set s. is_space c) \<or> lower s = ''none''"
  by (simp add: response_missing_def py_str_def strip_empty_iff)

lemma extract_severity_str: "\<exists>sev. extract_severity (PStr l) = Inr sev"
  by (simp add: extract_severity_def split: option.splits bool.splits)

lemma parse_safety_str: "\<exists>h c. parse_safety (PStr p) = Inr (h, c)"
  by (auto simp add: parse_safety_def split: bool.splits)

lemma parse_safety_flag:
  "parse_safety (PStr p) = Inr (h, c) \<Longrightarrow> h = sub_in ''unsafe'' p"
  by (cases p) (auto simp add: parse_safety_def starts_with_def split: bool.splits if_splits)


lemma parse_safety_none: "parse_safety PNone = Inr (False, ''safe'')"
  by (simp add: parse_safety_def)

lemma extract_severity_none: "extract_severity PNone = Inr None"
  by (simp add: extract_severity_def)

text \<open>
  Claim C7.  For a bingoguard row whose \<^verbatim>\<open>prompt_label\<close> and \<^verbatim>\<open>label\<close> fields are strings,
  null or absent, the mapping returns a record whose \<^verbatim>\<open>query_harmful_label\<close> is the
  harmfulness \<open>h\<close> parsed from the prompt label (the label contains \<^verbatim>\<open>"unsafe"\<close>), and whose
  \<^verbatim>\<open>response_harmful_label\<close> is null when the response is absent, null, a string of
  white space only (the empty string included) or a spelling of \<^verbatim>\<open>"none"\<close> in any letter
  case, whatever \<open>h\<close> is, and is \<open>h\<close> otherwise.
\<close>

theorem bingoguard_response_label:
  assumes pl: "dict_get_default row ''prompt_label'' (PStr []) = PNone
               \<or> (\<exists>p. dict_get_default row ''prompt_label'' (PStr []) = PStr p)"
      and ll: "dict_get_default row ''label'' (PStr []) = PNone
               \<or> (\<exists>l. dict_get_default row ''label'' (PStr []) = PStr l)"
  shows "\<exists>item h c. bingoguard_mapping uid (PDict row) = Inr (Some item)
          \<and> parse_safety (dict_get_default row ''prompt_label'' (PStr [])) = Inr (h, c)
          \<and> h = (\<exists>p. dict_get_default row ''prompt_label'' (PStr []) = PStr p \<and> sub_in ''unsafe'' p)
          \<and> query_harmful_label item = Some h
          \<and> response_harmful_label item =
               (if response_missing (dict_get row ''response'') then None else Some h)
          \<and> (map_of row ''response'' = None \<longrightarrow> response_harmful_label item = None)
          \<and> (dict_get row ''response'' = PNone \<longrightarrow> response_harmful_label item = None)
          \<and> (\<forall>s. dict_get row ''response'' = PStr s \<longrightarrow>
                (response_harmful_label item = None
                   \<longleftrightarrow> (\<forall>ch \<in> set s. is_space ch) \<or> lower s = ''none''))"
proof -
  let ?p = "dict_get_default row ''prompt_label'' (PStr [])"
  let ?l = "dict_get_default row ''label'' (PStr [])"
  let ?r = "dict_get row ''response''"
  from pl obtain h c where hc: "parse_safety ?p = Inr (h, c)"
    using parse_safety_none parse_safety_str by metis
  have hflag: "h = (\<exists>p. ?p = PStr p \<and> sub_in ''unsafe'' p)"
  proof (cases "?p = PNone")
    case True
    with hc show ?thesis by (simp add: parse_safety_none)
  next
    case False
    with pl obtain p where p: "?p = PStr p" by blast
    with hc have "h = sub_in ''unsafe'' p" by (simp add: parse_safety_flag)
    with p show ?thesis by simp
  qed
  from ll obtain sev where sev: "extract_severity ?l = Inr sev"
    using extract_severity_none extract_severity_str by metis
  let ?item = "(new_DataItem uid)
                      \<lparr> query := dict_get row ''prompt'',
                        response := ?r,
                        query_harmful_label := Some h,
                        response_harmful_label := (if response_missing ?r then None else Some h),
                        category := PStr c,
                        extra := [(''severity'', (case sev of None \<Rightarrow> PNone | Some n \<Rightarrow> PInt n)),
                                  (''prompt_label'', ?p),
                                  (''label_field'', ?l)] \<rparr>"
  have run: "bingoguard_mapping uid (PDict row) = Inr (Some ?item)"
    by (simp add: bingoguard_mapping_def on_row_def Let_def hc sev)
  have absent: "response_missing ?r" if "map_of row ''response'' = None"
    using that by (simp add: response_missing_def dict_get_def)
  have null: "response_missing ?r" if "?r = PNone"
    using that by (simp add: response_missing_def)
  have strs: "response_harmful_label ?item = None
                   \<longleftrightarrow> (\<forall>ch \<in> set s. is_space ch) \<or> lower s = ''none''"
    if "?r = PStr s" for s
    using that by (simp add: response_missing_str)
  show ?thesis
    apply (rule exI[of _ ?item], rule exI[of _ h], rule exI[of _ c])
    using run hc hflag absent null strs by simp
qed

lemma lower_NONE: "lower ''NONE'' = ''none''"
  by code_simp

theorem bingoguard_response_label_witness:
  "\<exists>item. bingoguard_mapping ''u''
       (PDict [(''prompt_label'', PStr ''unsafe:violence''), (''response'', PStr ''NONE'')])
       = Inr (Some item)
     \<and> query_harmful_label item = Some True
     \<and> response_harmful_label item = None"
proof -
  let ?row = "[(''prompt_label'', PStr ''unsafe:violence''), (''response'', PStr ''NONE'')]"
  have pl: "dict_get_default ?row ''prompt_label'' (PStr []) = PNone
               \<or> (\<exists>p. dict_get_default ?row ''prompt_label'' (PStr []) = PStr p)"
    by (simp add: dict_get_default_def)
  have ll: "dict_get_default ?row ''label'' (PStr []) = PNone
               \<or> (\<exists>l. dict_get_default ?row ''label'' (PStr []) = PStr l)"
    by (simp add: dict_get_default_def)
  have u: "sub_in ''unsafe'' ''unsafe:violence''"
    by (simp add: starts_with_def)
  have m: "response_missing (dict_get ?row ''response'')"
    by (simp add: response_missing_def dict_get_def py_str_def lower_NONE)
  from bingoguard_response_label[OF pl ll, of "''u''"] obtain item h c where
    "bingoguard_mapping ''u'' (PDict ?row) = Inr (Some item)"
    "h = (\<exists>p. dict_get_default ?row ''prompt_label'' (PStr []) = PStr p \<and> sub_in ''unsafe'' p)"
    "query_harmful_label item = Some h"
    "response_harmful_label item =
               (if response_missing (dict_get ?row ''response'') then None else Some h)"
    by blast
  then show ?thesis using u m by (simp add: dict_get_default_def)
qed

section \<open>bingoguard: category and severity of a label\<close>

lemma bingoguard_examples:
  "parse_safety (PStr ''unsafe:violence #level: 3'') = Inr (True, ''3'')"
  "extract_severity (PStr ''unsafe:violence #level: 3'') = Inr (Some 3)"
  "parse_safety (PStr ''unsafe:violence'') = Inr (True, ''violence'')"
  by code_simp+

lemma sub_in_single: "sub_in [c] s \<longleftrightarrow> c \<in> set s"
  by (induction s) (auto simp add: starts_with_def)

lemma sub_in_prefix: "sub_in p (p @ b)"
proof -
  have sw: "starts_with p (p @ b)" by (simp add: starts_with_def)
  show ?thesis
  proof (cases "p @ b")
    case Nil
    then show ?thesis by simp
  next
    case (Cons a list)
    with sw have "starts_with p (a # list)" by simp
    then have "sub_in p (a # list)" by simp
    with Cons show ?thesis by simp
  qed
qed

lemma sub_in_append: "sub_in p (a @ p @ b)"
  by (induction a) (auto simp add: sub_in_prefix)

lemma split_char_nonempty: "split_char c s \<noteq> []"
  by (induction s) (auto split: list.splits)

lemma split_char_no_sep: "c \<notin> set s \<Longrightarrow> split_char c s = [s]"
  by (induction s) auto

lemma last_split_char_cons:
  "last (split_char c (x # s)) = (if c \<in> set s then last (split_char c s) else if x = c then s else x # s)"
proof (cases "c \<in> set s")
  case False
  then show ?thesis by (simp add: split_char_no_sep)
next
  case True
  then have "length (split_char c s) \<ge> 2"
  proof (induction s)
    case Nil
    then show ?case by simp
  next
    case (Cons y s)
    have "split_char c s \<noteq> []" by (rule split_char_nonempty)
    then obtain w ws where w: "split_char c s = w # ws" by (cases "split_char c s") auto
    show ?case
    proof (cases "y = c")
      case True
      then show ?thesis using w by simp
    next
      case False
      with Cons.prems have "c \<in> set s" by simp
      then have "2 \<le> length (split_char c s)" by (rule Cons.IH)
      then show ?thesis using False w by simp
    qed
  qed
  then obtain w v vs where "split_char c s = w # v # vs"
    by (cases "split_char c s"; cases "tl (split_char c s)") auto
  then show ?thesis using True by simp
qed

lemma last_split_char:
  "c \<notin> set post \<Longrightarrow> last (split_char c (pre @ c # post)) = post"
proof (induction pre)
  case Nil
  then show ?case by (simp only: append_Nil last_split_char_cons) simp
next
  case (Cons x pre)
  have "c \<in> set (pre @ c # post)" by simp
  then have "last (split_char c (x # pre @ c # post)) = last (split_char c (pre @ c # post))"
    by (simp only: last_split_char_cons if_True)
  then show ?case using Cons by simp
qed


lemma digit_not_space: "is_digit c \<Longrightarrow> \<not> is_space c"
  by (auto simp add: is_digit_def is_space_def Let_def)

lemma match_level_at_other: "c \<noteq> CHR ''#'' \<Longrightarrow> match_level_at (c # s) = None"
  by (simp add: match_level_at_def starts_with_def)

lemma search_level_skip: "CHR ''#'' \<notin> set pre \<Longrightarrow> search_level (pre @ s) = search_level s"
  by (induction pre) (auto simp add: match_level_at_other)

lemma match_level_at_here:
  assumes ws: "\<forall>c \<in> set ws. is_space c"
      and ds: "ds \<noteq> []" "\<forall>c \<in> set ds. is_digit c"
      and rest: "rest = [] \<or> \<not> is_digit (hd rest)"
  shows "match_level_at (''#level:'' @ ws @ ds @ rest) = Some ds"
proof -
  from ds obtain d ds' where d: "ds = d # ds'" "is_digit d" by (cases ds) auto
  have "dropWhile is_space (ws @ ds @ rest) = dropWhile is_space (ds @ rest)"
    using ws by (simp add: dropWhile_append2)
  also have "\<dots> = ds @ rest" using d by (simp add: digit_not_space)
  finally have dw: "dropWhile is_space (ws @ ds @ rest) = ds @ rest" .
  have "takeWhile is_digit rest = []" using rest by (cases rest) auto
  then have tw: "takeWhile is_digit (ds @ rest) = ds"
    using ds(2) by (simp add: takeWhile_append2)
  show ?thesis using ds(1) by (simp add: match_level_at_def starts_with_def dw tw)
qed

lemma extract_severity_match:
  assumes pre: "CHR ''#'' \<notin> set pre"
      and ws: "\<forall>c \<in> set ws. is_space c"
      and ds: "ds \<noteq> []" "\<forall>c \<in> set ds. is_digit c"
      and rest: "rest = [] \<or> \<not> is_digit (hd rest)"
  shows "extract_severity (PStr (pre @ ''#level:'' @ ws @ ds @ rest)) = Inr (Some (int (undec ds)))"
proof -
  let ?l = "pre @ ''#level:'' @ ws @ ds @ rest"
  have m: "match_level_at (''#level:'' @ ws @ ds @ rest) = Some ds"
    using ws ds rest by (rule match_level_at_here)
  have here: "search_level (''#level:'' @ ws @ ds @ rest) = Some ds"
    using m by simp
  have skip: "search_level ?l = search_level (''#level:'' @ ws @ ds @ rest)"
    using pre by (rule search_level_skip)
  from skip here have sl: "search_level ?l = Some ds" by (rule trans)
  have occ: "sub_in ''#level:'' ?l" by (rule sub_in_append)
  have ne: "?l \<noteq> []" by simp
  show ?thesis unfolding extract_severity_def using sl occ ne by simp
qed

lemma parse_safety_colon:
  assumes "CHR '':'' \<notin> set post"
  shows "parse_safety (PStr (pre @ '':'' @ post)) =
           Inr (sub_in ''unsafe'' (pre @ '':'' @ post), strip post)"
proof -
  have "sub_in '':'' (pre @ '':'' @ post)" by (rule sub_in_append)
  moreover have "last (split_char (CHR '':'') (pre @ '':'' @ post)) = post"
    using assms by (simp add: last_split_char)
  ultimately show ?thesis by (simp add: parse_safety_def)
qed

lemma parse_safety_no_colon:
  assumes "CHR '':'' \<notin> set s" and "sub_in ''unsafe'' s"
  shows "parse_safety (PStr s) = Inr (True, ''unsafe'')"
proof -
  from assms(1) have "\<not> sub_in '':'' s" by (simp add: sub_in_single)
  moreover from assms(2) have "s \<noteq> []" by auto
  ultimately show ?thesis using assms(2) by (simp add: parse_safety_def)
qed

lemma extract_severity_no_pattern:
  "\<not> sub_in ''#level:'' l \<Longrightarrow> extract_severity (PStr l) = Inr None"
  by (simp add: extract_severity_def)


lemma response_present_example: "\<not> response_missing (PStr ''ok'')"
  by code_simp

theorem label_category_counterexample:
  "parse_safety (PStr ''unsafe:violence #level: 3'') = Inr (True, ''3'')
   \<and> bingoguard_mapping ''u''
       (PDict [(''prompt'', PStr ''q''), (''response'', PStr ''ok''),
               (''prompt_label'', PStr ''unsafe:violence #level: 3''),
               (''label'', PStr ''unsafe:violence #level: 3'')]) =
     Inr (Some \<lparr> item_id = ''u'', query = PStr ''q'', response = PStr ''ok'',
                 query_harmful_label = Some True, response_harmful_label = Some True,
                 response_refusal_label = None, category = PStr ''3'',
                 extra = [(''severity'', PInt 3),
                          (''prompt_label'', PStr ''unsafe:violence #level: 3''),
                          (''label_field'', PStr ''unsafe:violence #level: 3'')] \<rparr>)"
  by (simp add: bingoguard_mapping_def on_row_def Let_def dict_get_def dict_get_default_def
        new_DataItem_def bingoguard_examples response_present_example)

lemma hash_classes: "\<not> is_space (CHR ''#'')" "\<not> is_digit (CHR ''#'')"
  by code_simp+

lemma level_match_of_digit:
  assumes "s = ''#level:'' @ ws @ d # u" and "\<forall>c \<in> set ws. is_space c" and "is_digit d"
  shows "\<exists>ds. level_match s ds"
proof -
  let ?ds = "takeWhile is_digit (d # u)" and ?rest = "dropWhile is_digit (d # u)"
  have 1: "s = ''#level:'' @ ws @ ?ds @ ?rest"
    using assms(1) by (simp only: takeWhile_dropWhile_id)
  have 2: "?ds \<noteq> []" using assms(3) by simp
  have 3: "\<forall>c \<in> set ?ds. is_digit c" by (meson set_takeWhileD)
  have 4: "?rest = [] \<or> \<not> is_digit (hd ?rest)" by (meson hd_dropWhile)
  show ?thesis unfolding level_match_def using 1 assms(2) 2 3 4 by blast
qed

lemma match_level_at_sound:
  assumes "match_level_at s = Some ds"
  shows "level_match s ds"
proof -
  from assms have sw: "starts_with ''#level:'' s"
    by (auto simp add: match_level_at_def split: if_splits)
  let ?t = "drop 7 s"
  let ?ws = "takeWhile is_space ?t" and ?u = "dropWhile is_space ?t"
  from assms sw have ds: "ds = takeWhile is_digit ?u" "ds \<noteq> []"
    by (auto simp add: match_level_at_def Let_def split: if_splits)
  let ?rest = "dropWhile is_digit ?u"
  from sw have "take (length ''#level:'') s = ''#level:''" by (simp only: starts_with_def)
  moreover have "length ''#level:'' = 7" by simp
  ultimately have "take 7 s = ''#level:''" by (simp only:)
  then have "s = ''#level:'' @ ?t" by (metis append_take_drop_id)
  also have "?t = ?ws @ ?u" by simp
  also have "?u = ds @ ?rest" unfolding ds(1) by simp
  finally have 1: "s = ''#level:'' @ ?ws @ ds @ ?rest" .
  have 2: "\<forall>c \<in> set ?ws. is_space c" by (meson set_takeWhileD)
  have 3: "\<forall>c \<in> set ds. is_digit c" unfolding ds(1) by (meson set_takeWhileD)
  have 4: "?rest = [] \<or> \<not> is_digit (hd ?rest)" by (meson hd_dropWhile)
  show ?thesis unfolding level_match_def using 1 2 ds(2) 3 4 by blast
qed

lemma match_level_at_iff: "match_level_at s = Some ds \<longleftrightarrow> level_match s ds"
proof
  assume "match_level_at s = Some ds"
  then show "level_match s ds" by (rule match_level_at_sound)
next
  assume "level_match s ds"
  then show "match_level_at s = Some ds"
    unfolding level_match_def using match_level_at_here by blast
qed

lemma match_level_at_None_iff: "match_level_at s = None \<longleftrightarrow> \<not> (\<exists>ds. level_match s ds)"
  using match_level_at_iff by (metis option.distinct(1) option.exhaust)

lemma not_level_match_Nil: "\<not> level_match [] ds"
  by (simp add: level_match_def)

lemma has_level_pattern_Nil: "\<not> has_level_pattern []"
  by (simp add: has_level_pattern_def not_level_match_Nil)

lemma has_level_pattern_Cons:
  "has_level_pattern (c # t) \<longleftrightarrow> (\<exists>ds. level_match (c # t) ds) \<or> has_level_pattern t"
proof
  assume "has_level_pattern (c # t)"
  then obtain pre s ds where d: "c # t = pre @ s" "level_match s ds"
    unfolding has_level_pattern_def by blast
  show "(\<exists>ds. level_match (c # t) ds) \<or> has_level_pattern t"
  proof (cases pre)
    case Nil
    with d show ?thesis by auto
  next
    case (Cons x pre')
    with d have "t = pre' @ s" by simp
    with d(2) show ?thesis unfolding has_level_pattern_def by blast
  qed
next
  assume "(\<exists>ds. level_match (c # t) ds) \<or> has_level_pattern t"
  then show "has_level_pattern (c # t)"
  proof
    assume "\<exists>ds. level_match (c # t) ds"
    then obtain ds where "level_match (c # t) ds" ..
    then have "c # t = [] @ (c # t) \<and> level_match (c # t) ds" by simp
    then show ?thesis unfolding has_level_pattern_def by blast
  next
    assume "has_level_pattern t"
    then obtain pre s ds where "t = pre @ s" "level_match s ds"
      unfolding has_level_pattern_def by blast
    then have "c # t = (c # pre) @ s \<and> level_match s ds" by simp
    then show ?thesis unfolding has_level_pattern_def by blast
  qed
qed

lemma search_level_None_iff: "search_level l = None \<longleftrightarrow> \<not> has_level_pattern l"
proof (induction l)
  case Nil
  then show ?case by (simp add: has_level_pattern_Nil)
next
  case (Cons c t)
  show ?case
  proof (cases "match_level_at (c # t)")
    case None
    then have "\<not> (\<exists>ds. level_match (c # t) ds)" by (simp add: match_level_at_None_iff)
    then show ?thesis using None Cons by (simp add: has_level_pattern_Cons)
  next
    case (Some ds)
    then have "level_match (c # t) ds" by (simp add: match_level_at_iff)
    then have "has_level_pattern (c # t)" using has_level_pattern_Cons by blast
    then show ?thesis using Some by simp
  qed
qed


lemma level_match_hd: "level_match s ds \<Longrightarrow> \<exists>s'. s = CHR ''#'' # s'"
  by (auto simp add: level_match_def)

lemma level_match_inside:
  assumes m: "level_match (p @ s) ds" and p: "p \<noteq> []" and s: "s = CHR ''#'' # s'"
  shows "has_level_pattern p"
proof -
  from m obtain ws rest where
    eq: "p @ s = ''#level:'' @ ws @ ds @ rest" and ws: "\<forall>c \<in> set ws. is_space c"
    and ds: "ds \<noteq> []" "\<forall>c \<in> set ds. is_digit c"
    unfolding level_match_def by blast
  from ds obtain d ds' where d: "ds = d # ds'" "is_digit d" by (cases ds) auto
  let ?X = "''#level:'' @ ws @ [d]"
  have eq': "p @ s = ?X @ (ds' @ rest)" using eq d by simp
  have nohash: "CHR ''#'' \<notin> set (tl ?X)"
    using ws d(2) hash_classes by auto
  from eq' obtain us where "(p = ?X @ us \<and> us @ s = ds' @ rest) \<or> (p @ us = ?X \<and> s = us @ (ds' @ rest))"
    unfolding append_eq_append_conv2 by blast
  then have "\<exists>u. p = ''#level:'' @ ws @ d # u"
  proof
    assume "p = ?X @ us \<and> us @ s = ds' @ rest"
    then show ?thesis by simp
  next
    assume c2: "p @ us = ?X \<and> s = us @ (ds' @ rest)"
    show ?thesis
    proof (cases us)
      case Nil
      with c2 show ?thesis by simp
    next
      case (Cons u us')
      with c2 s have "u = CHR ''#''" by simp
      moreover from p obtain x p' where "p = x # p'" by (cases p) auto
      ultimately have "tl ?X = p' @ CHR ''#'' # us'" using c2 Cons
        by (metis append_Cons list.sel(3))
      then have "CHR ''#'' \<in> set (tl ?X)" by simp
      with nohash show ?thesis by contradiction
    qed
  qed
  then obtain u where "p = ''#level:'' @ ws @ d # u" ..
  from level_match_of_digit[OF this ws d(2)] obtain ds2 where "level_match p ds2" ..
  then have "p = [] @ p \<and> level_match p ds2" by simp
  then show ?thesis unfolding has_level_pattern_def by blast
qed

lemma search_level_leftmost:
  assumes "level_match s ds" and "\<not> has_level_pattern pre"
  shows "search_level (pre @ s) = Some ds"
  using assms(2)
proof (induction pre)
  case Nil
  from assms(1) obtain s' where s: "s = CHR ''#'' # s'" using level_match_hd by blast
  from assms(1) have "match_level_at s = Some ds" by (simp add: match_level_at_iff)
  then show ?case unfolding s by simp
next
  case (Cons c pre)
  from assms(1) obtain s' where s: "s = CHR ''#'' # s'" using level_match_hd by blast
  have "match_level_at ((c # pre) @ s) = None"
  proof (rule ccontr)
    assume "match_level_at ((c # pre) @ s) \<noteq> None"
    then have "\<exists>ds'. level_match ((c # pre) @ s) ds'"
      by (simp only: match_level_at_None_iff not_not)
    then obtain ds' where "level_match ((c # pre) @ s) ds'" ..
    from level_match_inside[OF this _ s] have "has_level_pattern (c # pre)" by simp
    with Cons.prems show False by contradiction
  qed
  moreover from Cons.prems have "\<not> has_level_pattern pre"
    by (simp add: has_level_pattern_Cons)
  ultimately show ?case using Cons.IH by simp
qed

lemma has_level_pattern_sub_in:
  assumes "has_level_pattern l"
  shows "sub_in ''#level:'' l"
proof -
  from assms obtain pre s ds where "l = pre @ s" "level_match s ds"
    unfolding has_level_pattern_def by blast
  then obtain t where "l = pre @ ''#level:'' @ t"
    unfolding level_match_def by auto
  then show ?thesis by (simp only: sub_in_append)
qed

lemma extract_severity_leftmost:
  assumes "level_match s ds" and "\<not> has_level_pattern pre"
  shows "extract_severity (PStr (pre @ s)) = Inr (Some (int (undec ds)))"
proof -
  have sl: "search_level (pre @ s) = Some ds" using assms by (rule search_level_leftmost)
  then have "has_level_pattern (pre @ s)" using search_level_None_iff by force
  then have occ: "sub_in ''#level:'' (pre @ s)" by (rule has_level_pattern_sub_in)
  from assms(1) have ne: "pre @ s \<noteq> []" using level_match_hd by fastforce
  show ?thesis unfolding extract_severity_def using sl occ ne by simp
qed

lemma extract_severity_None_iff:
  "extract_severity (PStr l) = Inr None \<longleftrightarrow> \<not> has_level_pattern l"
proof (cases "search_level l")
  case None
  then have "\<not> has_level_pattern l" by (simp add: search_level_None_iff)
  moreover from None have "extract_severity (PStr l) = Inr None"
    by (simp add: extract_severity_def split: bool.splits)
  ultimately show ?thesis by simp
next
  case (Some ds)
  then have h: "has_level_pattern l" using search_level_None_iff by force
  then have occ: "sub_in ''#level:'' l" by (rule has_level_pattern_sub_in)
  from h have ne: "l \<noteq> []" using has_level_pattern_Nil by auto
  have "extract_severity (PStr l) = Inr (Some (int (undec ds)))"
    unfolding extract_severity_def using Some occ ne by simp
  then show ?thesis using h by simp
qed


lemma severity_eval_facts:
  "search_level ''#level: high'' = None"
  "search_level ''x '' = None"
  "match_level_at ''#level: 12!'' = Some ''12''"
  by code_simp+

text \<open>
  Claim C8, amended.  The category of a string prompt label that contains a colon is the
  text after its last colon, stripped: for \<^verbatim>\<open>"unsafe:violence #level: 3"\<close> that is
  \<^verbatim>\<open>"3"\<close> (the last colon is the one of \<^verbatim>\<open>#level:\<close>), and for \<^verbatim>\<open>"unsafe:violence"\<close> it is
  \<^verbatim>\<open>"violence"\<close>; a label without a colon that contains \<^verbatim>\<open>"unsafe"\<close> gets the category
  \<^verbatim>\<open>"unsafe"\<close>.  The severity of a label string is null exactly when the pattern
  (\<^verbatim>\<open>#level:\<close>, optional white space, one or more digits) occurs nowhere in it, so
  without the pattern it is never 0 (\<^verbatim>\<open>"#level: high"\<close>, the empty string and a null
  label have the severity null); otherwise it is the integer that the digits of the
  leftmost occurrence denote (3 for \<^verbatim>\<open>"unsafe:violence #level: 3"\<close>).
\<close>

theorem bingoguard_category_and_severity:
  "parse_safety (PStr ''unsafe:violence #level: 3'') = Inr (True, ''3'')
   \<and> extract_severity (PStr ''unsafe:violence #level: 3'') = Inr (Some 3)
   \<and> parse_safety (PStr ''unsafe:violence'') = Inr (True, ''violence'')
   \<and> (\<forall>pre post. CHR '':'' \<notin> set post \<longrightarrow>
          parse_safety (PStr (pre @ '':'' @ post)) =
            Inr (sub_in ''unsafe'' (pre @ '':'' @ post), strip post))
   \<and> (\<forall>s. CHR '':'' \<notin> set s \<and> sub_in ''unsafe'' s \<longrightarrow>
          parse_safety (PStr s) = Inr (True, ''unsafe''))
   \<and> (\<forall>l. (extract_severity (PStr l) = Inr None) = (\<not> has_level_pattern l))
   \<and> (\<forall>pre s ds. level_match s ds \<and> \<not> has_level_pattern pre \<longrightarrow>
          extract_severity (PStr (pre @ s)) = Inr (Some (int (undec ds))))
   \<and> (\<forall>l. \<not> sub_in ''#level:'' l \<longrightarrow> extract_severity (PStr l) = Inr None)
   \<and> (\<forall>l. \<not> has_level_pattern l \<longrightarrow> extract_severity (PStr l) \<noteq> Inr (Some 0))
   \<and> extract_severity (PStr ''#level: high'') = Inr None
   \<and> extract_severity (PStr []) = Inr None
   \<and> extract_severity PNone = Inr None"
proof -
  have high: "extract_severity (PStr ''#level: high'') = Inr None"
    using severity_eval_facts(1) by (simp only: extract_severity_None_iff search_level_None_iff[symmetric])
  have never0: "extract_severity (PStr l) \<noteq> Inr (Some 0)" if "\<not> has_level_pattern l" for l
    using that extract_severity_None_iff[of l] by simp
  have empty: "extract_severity (PStr []) = Inr None"
    by (simp add: extract_severity_def)
  show ?thesis
    using bingoguard_examples parse_safety_colon parse_safety_no_colon
      extract_severity_None_iff extract_severity_leftmost extract_severity_no_pattern
      never0 high empty extract_severity_none
    by (intro conjI allI impI) (simp_all del: sub_in.simps)
qed

lemma bingoguard_eval_facts:
  "strip '' violence '' = ''violence''"
  "sub_in ''unsafe'' ''unsafe: violence ''"
  "sub_in ''unsafe'' ''unsafe''"
  "\<not> sub_in ''#level:'' ''safe''"
  "undec ''12'' = 12"
  "\<forall>c \<in> set '' ''. is_space c"
  "\<forall>c \<in> set ''12''. is_digit c"
  "\<not> is_digit (hd ''!'')"
  by code_simp+

theorem bingoguard_category_and_severity_witness:
  "parse_safety (PStr ''unsafe: violence '') = Inr (True, ''violence'')
   \<and> parse_safety (PStr ''unsafe'') = Inr (True, ''unsafe'')
   \<and> extract_severity (PStr ''safe'') = Inr None
   \<and> extract_severity (PStr ''x #level: 12!'') = Inr (Some 12)
   \<and> extract_severity (PStr ''#level: high'') = Inr None"
proof -
  note t = bingoguard_category_and_severity
  note t3 = t[THEN conjunct2, THEN conjunct2, THEN conjunct2]
  note colon = t3[THEN conjunct1, rule_format]
  note t4 = t3[THEN conjunct2]
  note no_colon = t4[THEN conjunct1, rule_format]
  note t5 = t4[THEN conjunct2]
  note none_iff = t5[THEN conjunct1, rule_format]
  note t6 = t5[THEN conjunct2]
  note leftmost = t6[THEN conjunct1, rule_format]
  note t7 = t6[THEN conjunct2]
  note no_level = t7[THEN conjunct1, rule_format]
  have a0: "parse_safety (PStr (''unsafe'' @ '':'' @ '' violence '')) =
            Inr (sub_in ''unsafe'' (''unsafe'' @ '':'' @ '' violence ''), strip '' violence '')"
    by (rule colon) simp
  have e1: "''unsafe'' @ '':'' @ '' violence '' = ''unsafe: violence ''" by simp
  have a: "parse_safety (PStr ''unsafe: violence '') = Inr (True, ''violence'')"
    using a0 bingoguard_eval_facts(2) unfolding e1 bingoguard_eval_facts(1)
    by (simp del: sub_in.simps)
  have b: "parse_safety (PStr ''unsafe'') = Inr (True, ''unsafe'')"
    by (rule no_colon) (use bingoguard_eval_facts(3) in \<open>simp del: sub_in.simps\<close>)
  have c: "extract_severity (PStr ''safe'') = Inr None"
    by (rule no_level) (rule bingoguard_eval_facts(4))
  have m: "level_match ''#level: 12!'' ''12''"
    using match_level_at_iff[of "''#level: 12!''" "''12''"] severity_eval_facts(3) by blast
  have np: "\<not> has_level_pattern ''x ''"
    using search_level_None_iff[of "''x ''"] severity_eval_facts(2) by blast
  have prem: "level_match ''#level: 12!'' ''12'' \<and> \<not> has_level_pattern ''x ''"
    using m np by (rule conjI)
  have d0: "extract_severity (PStr (''x '' @ ''#level: 12!'')) = Inr (Some (int (undec ''12'')))"
    by (rule leftmost) (rule prem)
  have e2: "''x '' @ ''#level: 12!'' = ''x #level: 12!''" by simp
  have d: "extract_severity (PStr ''x #level: 12!'') = Inr (Some 12)"
    using d0 unfolding e2 bingoguard_eval_facts(5) by simp
  have nh: "\<not> has_level_pattern ''#level: high''"
    using search_level_None_iff[of "''#level: high''"] severity_eval_facts(1) by blast
  have e: "extract_severity (PStr ''#level: high'') = Inr None"
    using none_iff[of "''#level: high''"] nh by blast
  show ?thesis using a b c d e by (intro conjI)
qed

end
